theory Spec2Isabelle
  imports Complex_Main "HOL-Library.Multiset"
begin

section \<open>Infrastructure dependency cascade (src/services/infrastructure-cascade.ts)\<close>

text \<open>
  The service builds a dependency graph from four static datasets, caches it, and
  propagates a disruption from one node breadth first. JavaScript numbers are modelled
  as exact reals (finite values, no rounding, no NaN); strings as \<open>string\<close>; a
  \<open>Map\<close> as an association list in insertion order with unique keys; a \<open>Set\<close> as a
  list in insertion order without repetition; the module variable \<open>cachedGraph\<close> as
  an explicit state threaded through every function that reads or writes it.

  Two places go beyond the exact reals. The mean of the redundancy analysis takes its
  sum and its quotient as a parameter, so that it is also the mean in the arithmetic of
  doubles. The disruption level, which the caller passes unvalidated, is taken up again
  as a JavaScript number that may be NaN or infinite, in a second rendering of the loop
  that agrees with the first on every finite level.
\<close>

subsection \<open>Reference data\<close>

text \<open>
  The datasets \<open>UNDERSEA_CABLES\<close>, \<open>PIPELINES\<close>, \<open>PORTS\<close> and
  \<open>STRATEGIC_WATERWAYS\<close> and the declarations of their element types live in modules
  that are not part of the service file. The records below carry the fields the service
  reads, optional where the service reads them with \<open>?.\<close>; the datasets themselves are
  a parameter \<open>ds\<close> of every function.
\<close>

record country_capacity =
  cc_country :: string
  capacityShare :: real
  isRedundant :: bool

record landing_point =
  lp_country :: string

record cable =
  cable_id :: string
  cable_name :: string
  cable_points :: "(real \<times> real) list option"
  capacityTbps :: "real option"
  rfsYear :: "int option"
  owners :: "string list option"
  landingPoints :: "landing_point list option"
  countriesServed :: "country_capacity list option"

record pipeline =
  pipeline_id :: string
  pipeline_name :: string
  pipeline_points :: "(real \<times> real) list option"
  pipeline_type :: string
  pipeline_status :: string
  pipeline_capacity :: "string option"
  pipeline_operator :: "string option"
  pipeline_countries :: "string list option"

record port =
  port_id :: string
  port_name :: string
  port_lon :: real
  port_lat :: real
  port_country :: string
  port_type :: string
  port_rank :: "nat option"

record waterway =
  waterway_id :: string
  waterway_name :: string
  waterway_lon :: real
  waterway_lat :: real
  waterway_description :: "string option"

record datasets =
  UNDERSEA_CABLES :: "cable list"
  PIPELINES :: "pipeline list"
  PORTS :: "port list"
  STRATEGIC_WATERWAYS :: "waterway list"

definition COUNTRY_NAMES :: "(string \<times> string) list" where
  "COUNTRY_NAMES =
    [(''US'', ''United States''), (''GB'', ''United Kingdom''), (''ES'', ''Spain''),
     (''FR'', ''France''), (''DE'', ''Germany''), (''IT'', ''Italy''),
     (''PT'', ''Portugal''), (''NO'', ''Norway''), (''DK'', ''Denmark''),
     (''NL'', ''Netherlands''), (''BE'', ''Belgium''), (''SE'', ''Sweden''),
     (''FI'', ''Finland''), (''IE'', ''Ireland''), (''AT'', ''Austria''),
     (''CH'', ''Switzerland''), (''GR'', ''Greece''), (''CZ'', ''Czech Republic''),
     (''JP'', ''Japan''), (''CN'', ''China''), (''TW'', ''Taiwan''),
     (''HK'', ''Hong Kong''), (''SG'', ''Singapore''), (''KR'', ''South Korea''),
     (''AU'', ''Australia''), (''NZ'', ''New Zealand''), (''IN'', ''India''),
     (''PK'', ''Pakistan''), (''AE'', ''UAE''), (''SA'', ''Saudi Arabia''),
     (''EG'', ''Egypt''), (''KW'', ''Kuwait''), (''BH'', ''Bahrain''),
     (''OM'', ''Oman''), (''QA'', ''Qatar''), (''IR'', ''Iran''), (''IQ'', ''Iraq''),
     (''TR'', ''Turkey''), (''IL'', ''Israel''), (''JO'', ''Jordan''),
     (''LB'', ''Lebanon''), (''SY'', ''Syria''), (''YE'', ''Yemen''),
     (''NG'', ''Nigeria''), (''ZA'', ''South Africa''), (''KE'', ''Kenya''),
     (''TZ'', ''Tanzania''), (''MZ'', ''Mozambique''), (''MG'', ''Madagascar''),
     (''SN'', ''Senegal''), (''GH'', ''Ghana''), (''CI'', ''Ivory Coast''),
     (''AO'', ''Angola''), (''ET'', ''Ethiopia''), (''UG'', ''Uganda''),
     (''BR'', ''Brazil''), (''AR'', ''Argentina''), (''CL'', ''Chile''),
     (''PE'', ''Peru''), (''CO'', ''Colombia''), (''MX'', ''Mexico''),
     (''PA'', ''Panama''), (''VE'', ''Venezuela''), (''IS'', ''Iceland''),
     (''FO'', ''Faroe Islands''), (''FJ'', ''Fiji''), (''ID'', ''Indonesia''),
     (''VN'', ''Vietnam''), (''TH'', ''Thailand''), (''MY'', ''Malaysia''),
     (''PH'', ''Philippines''), (''RU'', ''Russia''), (''UA'', ''Ukraine''),
     (''PL'', ''Poland''), (''RO'', ''Romania''), (''HU'', ''Hungary''),
     (''CA'', ''Canada''), (''DJ'', ''Djibouti''), (''BD'', ''Bangladesh''),
     (''LK'', ''Sri Lanka''), (''MM'', ''Myanmar'')]"

subsection \<open>Nodes, edges and the graph\<close>

datatype node_type = Cable | Pipeline | Port | Chokepoint | Country

datatype node_metadata =
    CableMeta "real option" "int option" "string list option" "landing_point list option"
  | PipelineMeta string string "string option" "string option" "string list option"
  | PortMeta string string "nat option"
  | ChokepointMeta "string option"
  | CountryMeta string

record node =
  node_id :: string
  node_type :: node_type
  node_name :: string
  coordinates :: "(real \<times> real) option"
  node_metadata :: node_metadata

datatype edge_type = Serves | LandsAt

record edge_metadata =
  em_capacityShare :: real
  estimatedImpact :: string

record edge =
  edge_from :: string
  edge_to :: string
  edge_type :: edge_type
  strength :: real
  redundancy :: real
  edge_metadata :: "edge_metadata option"

record graph =
  nodes :: "(string \<times> node) list"
  edges :: "edge list"
  outgoing :: "(string \<times> edge list) list"
  incoming :: "(string \<times> edge list) list"

subsection \<open>Map, Set and string primitives\<close>

text \<open>\<open>Map.prototype.set\<close>: an existing key keeps its position and takes the new value,
  a new key goes to the end.\<close>

fun map_set :: "'k \<Rightarrow> 'v \<Rightarrow> ('k \<times> 'v) list \<Rightarrow> ('k \<times> 'v) list" where
  "map_set k v [] = [(k, v)]"
| "map_set k v ((k', v') # m) =
     (if k' = k then (k, v) # m else (k', v') # map_set k v m)"

definition map_get :: "('k \<times> 'v) list \<Rightarrow> 'k \<Rightarrow> 'v option" where
  "map_get m k = map_of m k"

definition map_has :: "('k \<times> 'v) list \<Rightarrow> 'k \<Rightarrow> bool" where
  "map_has m k = (map_get m k \<noteq> None)"

text \<open>\<open>Set.prototype.add\<close>.\<close>

definition set_add :: "'a \<Rightarrow> 'a list \<Rightarrow> 'a list" where
  "set_add x s = (if x \<in> set s then s else s @ [x])"

text \<open>\<open>String.prototype.startsWith\<close> and \<open>String.prototype.replace\<close> with a string
  pattern (the first occurrence only).\<close>

fun startsWith :: "string \<Rightarrow> string \<Rightarrow> bool" where
  "startsWith s [] = True"
| "startsWith [] (p # ps) = False"
| "startsWith (c # cs) (p # ps) = (c = p \<and> startsWith cs ps)"

fun replace :: "string \<Rightarrow> string \<Rightarrow> string \<Rightarrow> string" where
  "replace [] pat rep = (if pat = [] then rep else [])"
| "replace (c # cs) pat rep =
     (if startsWith (c # cs) pat then rep @ drop (length pat) (c # cs)
      else c # replace cs pat rep)"

subsection \<open>Graph builder\<close>

definition firstPointCoordinates :: "(real \<times> real) list option \<Rightarrow> (real \<times> real) option" where
  "firstPointCoordinates pts =
     (case pts of None \<Rightarrow> None | Some [] \<Rightarrow> None | Some (p # _) \<Rightarrow> Some (fst p, snd p))"

definition cableNode :: "cable \<Rightarrow> node" where
  "cableNode c =
     \<lparr>node_id = ''cable:'' @ cable_id c, node_type = Cable, node_name = cable_name c,
      coordinates = firstPointCoordinates (cable_points c),
      node_metadata = CableMeta (capacityTbps c) (rfsYear c) (owners c) (landingPoints c)\<rparr>"

definition addCablesAsNodes :: "datasets \<Rightarrow> graph \<Rightarrow> graph" where
  "addCablesAsNodes ds g =
     foldl (\<lambda>g c. g\<lparr>nodes := map_set (''cable:'' @ cable_id c) (cableNode c) (nodes g)\<rparr>)
       g (UNDERSEA_CABLES ds)"

definition pipelineNode :: "pipeline \<Rightarrow> node" where
  "pipelineNode p =
     \<lparr>node_id = ''pipeline:'' @ pipeline_id p, node_type = Pipeline,
      node_name = pipeline_name p,
      coordinates = firstPointCoordinates (pipeline_points p),
      node_metadata = PipelineMeta (pipeline_type p) (pipeline_status p)
        (pipeline_capacity p) (pipeline_operator p) (pipeline_countries p)\<rparr>"

definition addPipelinesAsNodes :: "datasets \<Rightarrow> graph \<Rightarrow> graph" where
  "addPipelinesAsNodes ds g =
     foldl (\<lambda>g p. g\<lparr>nodes := map_set (''pipeline:'' @ pipeline_id p) (pipelineNode p) (nodes g)\<rparr>)
       g (PIPELINES ds)"

definition portNode :: "port \<Rightarrow> node" where
  "portNode p =
     \<lparr>node_id = ''port:'' @ port_id p, node_type = Port, node_name = port_name p,
      coordinates = Some (port_lon p, port_lat p),
      node_metadata = PortMeta (port_country p) (port_type p) (port_rank p)\<rparr>"

definition addPortsAsNodes :: "datasets \<Rightarrow> graph \<Rightarrow> graph" where
  "addPortsAsNodes ds g =
     foldl (\<lambda>g p. g\<lparr>nodes := map_set (''port:'' @ port_id p) (portNode p) (nodes g)\<rparr>)
       g (PORTS ds)"

definition chokepointNode :: "waterway \<Rightarrow> node" where
  "chokepointNode w =
     \<lparr>node_id = ''chokepoint:'' @ waterway_id w, node_type = Chokepoint,
      node_name = waterway_name w,
      coordinates = Some (waterway_lon w, waterway_lat w),
      node_metadata = ChokepointMeta (waterway_description w)\<rparr>"

definition addChokepointsAsNodes :: "datasets \<Rightarrow> graph \<Rightarrow> graph" where
  "addChokepointsAsNodes ds g =
     foldl (\<lambda>g w. g\<lparr>nodes := map_set (''chokepoint:'' @ waterway_id w) (chokepointNode w) (nodes g)\<rparr>)
       g (STRATEGIC_WATERWAYS ds)"

text \<open>An optional array read with \<open>?.forEach\<close>: absent means no iteration.\<close>

definition opt_list :: "'a list option \<Rightarrow> 'a list" where
  "opt_list xs = (case xs of None \<Rightarrow> [] | Some ys \<Rightarrow> ys)"

text \<open>The aliasing of pipeline country labels, written twice in the source (in
  \<open>addCountriesAsNodes\<close> and in \<open>buildPipelineCountryEdges\<close>).\<close>

definition pipelineCountryCode :: "string \<Rightarrow> string" where
  "pipelineCountryCode c = (if c = ''USA'' then ''US'' else if c = ''Canada'' then ''CA'' else c)"

definition cableCountries :: "cable \<Rightarrow> string list \<Rightarrow> string list" where
  "cableCountries c countries =
     foldl (\<lambda>s lp. set_add (lp_country lp) s)
       (foldl (\<lambda>s cs. set_add (cc_country cs) s) countries (opt_list (countriesServed c)))
       (opt_list (landingPoints c))"

definition pipelineCountries :: "pipeline \<Rightarrow> string list \<Rightarrow> string list" where
  "pipelineCountries p countries =
     foldl (\<lambda>s c. set_add (pipelineCountryCode c) s) countries (opt_list (pipeline_countries p))"

definition collectCountries :: "datasets \<Rightarrow> string list" where
  "collectCountries ds =
     foldl (\<lambda>s p. pipelineCountries p s)
       (foldl (\<lambda>s c. cableCountries c s) [] (UNDERSEA_CABLES ds))
       (PIPELINES ds)"

definition countryName :: "string \<Rightarrow> string" where
  "countryName code =
     (case map_of COUNTRY_NAMES code of
        None \<Rightarrow> code
      | Some n \<Rightarrow> if n = [] then code else n)"

definition countryNode :: "string \<Rightarrow> node" where
  "countryNode code =
     \<lparr>node_id = ''country:'' @ code, node_type = Country, node_name = countryName code,
      coordinates = None, node_metadata = CountryMeta code\<rparr>"

definition addCountriesAsNodes :: "datasets \<Rightarrow> graph \<Rightarrow> graph" where
  "addCountriesAsNodes ds g =
     foldl (\<lambda>g code. g\<lparr>nodes := map_set (''country:'' @ code) (countryNode code) (nodes g)\<rparr>)
       g (collectCountries ds)"

definition map_push :: "string \<Rightarrow> edge \<Rightarrow> (string \<times> edge list) list \<Rightarrow> (string \<times> edge list) list" where
  "map_push k e m =
     (let m' = (if \<not> map_has m k then map_set k [] m else m)
      in map_set k (opt_list (map_get m' k) @ [e]) m')"

definition addEdge :: "graph \<Rightarrow> edge \<Rightarrow> graph" where
  "addEdge g e =
     g\<lparr>edges := edges g @ [e],
       outgoing := map_push (edge_from e) e (outgoing g),
       incoming := map_push (edge_to e) e (incoming g)\<rparr>"

definition servesEdge :: "string \<Rightarrow> country_capacity \<Rightarrow> edge" where
  "servesEdge cableId cs =
     \<lparr>edge_from = cableId, edge_to = ''country:'' @ cc_country cs, edge_type = Serves,
      strength = capacityShare cs,
      redundancy = (if isRedundant cs then 0.5 else 0),
      edge_metadata = Some \<lparr>em_capacityShare = capacityShare cs,
        estimatedImpact = (if isRedundant cs then ''Medium - redundancy available''
                           else ''High - limited redundancy'')\<rparr>\<rparr>"

definition landsAtEdge :: "string \<Rightarrow> landing_point \<Rightarrow> edge" where
  "landsAtEdge cableId lp =
     \<lparr>edge_from = cableId, edge_to = ''country:'' @ lp_country lp, edge_type = LandsAt,
      strength = 0.3, redundancy = 0.5, edge_metadata = None\<rparr>"

definition cableEdges :: "cable \<Rightarrow> edge list" where
  "cableEdges c =
     map (servesEdge (''cable:'' @ cable_id c)) (opt_list (countriesServed c)) @
     map (landsAtEdge (''cable:'' @ cable_id c)) (opt_list (landingPoints c))"

definition buildCableCountryEdges :: "datasets \<Rightarrow> graph \<Rightarrow> graph" where
  "buildCableCountryEdges ds g =
     foldl (\<lambda>g c. foldl addEdge g (cableEdges c)) g (UNDERSEA_CABLES ds)"

definition pipelineEdge :: "string \<Rightarrow> string \<Rightarrow> edge" where
  "pipelineEdge pipelineId country =
     \<lparr>edge_from = pipelineId, edge_to = ''country:'' @ pipelineCountryCode country,
      edge_type = Serves, strength = 0.2, redundancy = 0.3, edge_metadata = None\<rparr>"

definition addPipelineCountryEdge :: "string \<Rightarrow> graph \<Rightarrow> string \<Rightarrow> graph" where
  "addPipelineCountryEdge pipelineId g country =
     (if map_has (nodes g) (''country:'' @ pipelineCountryCode country)
      then addEdge g (pipelineEdge pipelineId country)
      else g)"

definition buildPipelineCountryEdges :: "datasets \<Rightarrow> graph \<Rightarrow> graph" where
  "buildPipelineCountryEdges ds g =
     foldl (\<lambda>g p. foldl (addPipelineCountryEdge (''pipeline:'' @ pipeline_id p)) g
                     (opt_list (pipeline_countries p)))
       g (PIPELINES ds)"

definition emptyGraph :: graph where
  "emptyGraph = \<lparr>nodes = [], edges = [], outgoing = [], incoming = []\<rparr>"

text \<open>The body of \<open>buildDependencyGraph\<close> after the cache test.\<close>

definition freshGraph :: "datasets \<Rightarrow> graph" where
  "freshGraph ds =
     buildPipelineCountryEdges ds
       (buildCableCountryEdges ds
         (addCountriesAsNodes ds
           (addChokepointsAsNodes ds
             (addPortsAsNodes ds
               (addPipelinesAsNodes ds
                 (addCablesAsNodes ds emptyGraph))))))"

text \<open>The module state is the variable \<open>cachedGraph\<close>.\<close>

type_synonym cache = "graph option"

definition clearGraphCache :: "cache \<Rightarrow> cache" where
  "clearGraphCache cachedGraph = None"

definition buildDependencyGraph :: "datasets \<Rightarrow> cache \<Rightarrow> graph \<times> cache" where
  "buildDependencyGraph ds cachedGraph =
     (case cachedGraph of
        Some g \<Rightarrow> (g, cachedGraph)
      | None \<Rightarrow> (let g = freshGraph ds in (g, Some g)))"

subsection \<open>Cascade simulation\<close>

datatype impact_level = Critical | High | Medium | Low

record affected_node =
  an_node :: node
  an_impactLevel :: impact_level
  pathLength :: nat
  dependencyChain :: "string list"
  redundancyAvailable :: bool
  estimatedRecovery :: "string option"

record country_impact =
  ci_country :: string
  ci_countryName :: string
  ci_impactLevel :: impact_level
  affectedCapacity :: real

record redundancy_candidate =
  rc_id :: string
  rc_name :: string
  rc_capacityShare :: real

record cascade_result =
  source :: node
  affectedNodes :: "affected_node list"
  countriesAffected :: "country_impact list"
  redundancies :: "redundancy_candidate list"

record queue_item =
  nodeId :: string
  depth :: nat
  path :: "string list"

definition categorizeImpact :: "real \<Rightarrow> impact_level" where
  "categorizeImpact s =
     (if s > 0.8 then Critical
      else if s > 0.5 then High
      else if s > 0.2 then Medium
      else Low)"

text \<open>\<open>x || 0\<close> on a number: a falsy number is replaced by zero.\<close>

definition or_zero :: "real \<Rightarrow> real" where
  "or_zero x = (if x = 0 then 0 else x)"

definition impactStrength :: "edge \<Rightarrow> real \<Rightarrow> real" where
  "impactStrength e disruptionLevel =
     strength e * disruptionLevel * (1 - or_zero (redundancy e))"

text \<open>\<open>graph.outgoing.get(nodeId) || []\<close>.\<close>

definition outgoingOf :: "graph \<Rightarrow> string \<Rightarrow> edge list" where
  "outgoingOf g k = opt_list (map_get (outgoing g) k)"

definition affectedEntry :: "node \<Rightarrow> edge \<Rightarrow> real \<Rightarrow> nat \<Rightarrow> string list \<Rightarrow> affected_node" where
  "affectedEntry targetNode e disruptionLevel dp pth =
     \<lparr>an_node = targetNode,
      an_impactLevel = categorizeImpact (impactStrength e disruptionLevel),
      pathLength = dp + 1,
      dependencyChain = pth @ [edge_to e],
      redundancyAvailable = (or_zero (redundancy e) > 0.3),
      estimatedRecovery = map_option estimatedImpact (edge_metadata e)\<rparr>"

type_synonym bfs_state = "string list \<times> (string \<times> affected_node) list \<times> queue_item list"

text \<open>The inner \<open>for (const edge of dependents)\<close> loop over the state
  (visited, affected, queue).\<close>

fun expandEdges ::
  "graph \<Rightarrow> real \<Rightarrow> nat \<Rightarrow> string list \<Rightarrow> edge list \<Rightarrow> bfs_state \<Rightarrow> bfs_state" where
  "expandEdges g d dp pth [] st = st"
| "expandEdges g d dp pth (e # es) (visited, affected, queue) =
     (if edge_to e \<in> set visited then expandEdges g d dp pth es (visited, affected, queue)
      else
        (case map_get (nodes g) (edge_to e) of
           None \<Rightarrow> expandEdges g d dp pth es (set_add (edge_to e) visited, affected, queue)
         | Some targetNode \<Rightarrow>
             if impactStrength e d < 0.05
             then expandEdges g d dp pth es (set_add (edge_to e) visited, affected, queue)
             else expandEdges g d dp pth es
                    (set_add (edge_to e) visited,
                     map_set (edge_to e) (affectedEntry targetNode e d dp pth) affected,
                     queue @ [\<lparr>nodeId = edge_to e, depth = dp + 1,
                               path = pth @ [edge_to e]\<rparr>])))"

definition edgeTargets :: "graph \<Rightarrow> string set" where
  "edgeTargets g = edge_to ` (\<Union>kv \<in> set (outgoing g). set (snd kv))"

lemma outgoingOf_subset:
  assumes "e \<in> set (outgoingOf g k)"
  shows "edge_to e \<in> edgeTargets g"
proof -
  from assms obtain es where es: "map_of (outgoing g) k = Some es" and e: "e \<in> set es"
    unfolding outgoingOf_def opt_list_def map_get_def by (cases "map_of (outgoing g) k") auto
  from es have "(k, es) \<in> set (outgoing g)" by (rule map_of_SomeD)
  with e show ?thesis unfolding edgeTargets_def by force
qed

lemma finite_edgeTargets: "finite (edgeTargets g)"
  unfolding edgeTargets_def by simp

lemma expandEdges_measure:
  "edge_to ` set es \<subseteq> edgeTargets g \<Longrightarrow>
   expandEdges g d dp pth es (v, a, q) = (v', a', q') \<Longrightarrow>
   card (edgeTargets g - set v') + length q' \<le> card (edgeTargets g - set v) + length q"
proof (induction es arbitrary: v a q)
  case Nil
  then show ?case by simp
next
  case (Cons e es)
  have sub: "edge_to ` set es \<subseteq> edgeTargets g" using Cons.prems(1) by auto
  show ?case
  proof (cases "edge_to e \<in> set v")
    case True
    with Cons.prems(2) have "expandEdges g d dp pth es (v, a, q) = (v', a', q')" by simp
    from Cons.IH[OF sub this] show ?thesis .
  next
    case False
    have inT: "edge_to e \<in> edgeTargets g" using Cons.prems(1) by auto
    have "edgeTargets g - set (set_add (edge_to e) v) = (edgeTargets g - set v) - {edge_to e}"
      using False by (auto simp: set_add_def)
    moreover have "edge_to e \<in> edgeTargets g - set v" using inT False by simp
    ultimately have dec:
      "card (edgeTargets g - set (set_add (edge_to e) v)) + 1 = card (edgeTargets g - set v)"
      using finite_edgeTargets[of g]
      by (metis Suc_eq_plus1 card_Suc_Diff1 finite_Diff)
    from Cons.prems(2) False consider
        (skip) "expandEdges g d dp pth es (set_add (edge_to e) v, a, q) = (v', a', q')"
      | (push) n where
        "expandEdges g d dp pth es
           (set_add (edge_to e) v, map_set (edge_to e) (affectedEntry n e d dp pth) a,
            q @ [\<lparr>nodeId = edge_to e, depth = dp + 1, path = pth @ [edge_to e]\<rparr>])
         = (v', a', q')"
      by (auto split: option.splits if_splits)
    then show ?thesis
    proof cases
      case skip
      from Cons.IH[OF sub skip] dec show ?thesis by linarith
    next
      case push
      from Cons.IH[OF sub push] dec show ?thesis by simp
    qed
  qed
qed

text \<open>The \<open>while (queue.length > 0)\<close> loop; it returns the final visited set and the
  \<open>affected\<close> map.\<close>

function bfs ::
  "graph \<Rightarrow> real \<Rightarrow> string list \<Rightarrow> (string \<times> affected_node) list \<Rightarrow> queue_item list
   \<Rightarrow> string list \<times> (string \<times> affected_node) list" where
  "bfs g d visited affected [] = (visited, affected)"
| "bfs g d visited affected (q # queue) =
     (if depth q \<ge> 3 then bfs g d visited affected queue
      else
        (case expandEdges g d (depth q) (path q) (outgoingOf g (nodeId q))
                (visited, affected, queue) of
           (visited', affected', queue') \<Rightarrow> bfs g d visited' affected' queue'))"
  by pat_completeness auto
termination
proof (relation "measure (\<lambda>(g, d, v, a, q). card (edgeTargets g - set v) + length q)",
    goal_cases)
  case 1
  show ?case by simp
next
  case (2 g d visited affected q queue)
  show ?case by simp
next
  case (3 g d visited affected q queue visited' rest affected' queue')
  have sub: "edge_to ` set (outgoingOf g (nodeId q)) \<subseteq> edgeTargets g"
    using outgoingOf_subset by auto
  have "expandEdges g d (depth q) (path q) (outgoingOf g (nodeId q))
          (visited, affected, queue) = (visited', affected', queue')"
    using 3(2,3) by simp
  from expandEdges_measure[OF sub this] show ?case by simp
qed

subsection \<open>Country aggregation and redundancy analysis\<close>

definition getCapacityForCountry :: "datasets \<Rightarrow> string \<Rightarrow> string \<Rightarrow> real" where
  "getCapacityForCountry ds sourceId countryCode =
     (if startsWith sourceId ''cable:'' then
        (let cableId = replace sourceId ''cable:'' [];
             cable = find (\<lambda>c. cable_id c = cableId) (UNDERSEA_CABLES ds);
             countryData =
               (case cable of
                  None \<Rightarrow> None
                | Some c \<Rightarrow> find (\<lambda>cs. cc_country cs = countryCode) (opt_list (countriesServed c)))
         in case countryData of None \<Rightarrow> 0 | Some cd \<Rightarrow> or_zero (capacityShare cd))
      else 0.1)"

definition sharedCountries :: "string list \<Rightarrow> cable \<Rightarrow> country_capacity list" where
  "sharedCountries sourceCountries c =
     filter (\<lambda>cs. cc_country cs \<in> set sourceCountries) (opt_list (countriesServed c))"

text \<open>
  The running sum and the quotient of the mean (\<open>reduce\<close> and the division that
  follows it) are operations on doubles. They are a parameter of the analysis, so that
  what is proved of it holds with the rounding operations of the machine as with the
  exact ones; the cascade result, whose other numbers are exact reals, is made with the
  exact ones.
\<close>

record arithmetic =
  num_add :: "real \<Rightarrow> real \<Rightarrow> real"
  num_divide :: "real \<Rightarrow> real \<Rightarrow> real"

definition exactArithmetic :: arithmetic where
  "exactArithmetic = \<lparr>num_add = (+), num_divide = (/)\<rparr>"

definition avgCapacity :: "arithmetic \<Rightarrow> country_capacity list \<Rightarrow> real" where
  "avgCapacity ar shared =
     num_divide ar (foldl (\<lambda>sum c. num_add ar sum (capacityShare c)) 0 shared)
       (real (length shared))"

text \<open>One round of the \<open>for (const cable of UNDERSEA_CABLES)\<close> loop of
  \<open>findRedundancies\<close>.\<close>

definition redundancyStep ::
  "arithmetic \<Rightarrow> string \<Rightarrow> string list \<Rightarrow> redundancy_candidate list \<Rightarrow> cable
   \<Rightarrow> redundancy_candidate list" where
  "redundancyStep ar cableId sourceCountries alternatives c =
     (if cable_id c = cableId then alternatives
      else
        (let shared = sharedCountries sourceCountries c
         in if length shared > 0
            then alternatives @
                   [\<lparr>rc_id = cable_id c, rc_name = cable_name c,
                     rc_capacityShare = avgCapacity ar shared\<rparr>]
            else alternatives))"

definition findRedundanciesWith ::
  "arithmetic \<Rightarrow> datasets \<Rightarrow> string \<Rightarrow> redundancy_candidate list" where
  "findRedundanciesWith ar ds sourceId =
     (if \<not> startsWith sourceId ''cable:'' then []
      else
        (let cableId = replace sourceId ''cable:'' []
         in case find (\<lambda>c. cable_id c = cableId) (UNDERSEA_CABLES ds) of
              None \<Rightarrow> []
            | Some sourceCable \<Rightarrow>
                (let sourceCountries =
                       foldl (\<lambda>s c. set_add c s) []
                         (map cc_country (opt_list (countriesServed sourceCable)))
                 in take 5 (foldl (redundancyStep ar cableId sourceCountries) []
                              (UNDERSEA_CABLES ds)))))"

definition findRedundancies :: "datasets \<Rightarrow> string \<Rightarrow> redundancy_candidate list" where
  "findRedundancies ds sourceId = findRedundanciesWith exactArithmetic ds sourceId"

text \<open>\<open>metadata?.code\<close>: only country nodes carry the property.\<close>

definition metadataCode :: "node_metadata \<Rightarrow> string option" where
  "metadataCode m = (case m of CountryMeta code \<Rightarrow> Some code | _ \<Rightarrow> None)"

definition countryCodeOf :: "string \<Rightarrow> affected_node \<Rightarrow> string" where
  "countryCodeOf nid a =
     (case metadataCode (node_metadata (an_node a)) of
        None \<Rightarrow> replace nid ''country:'' []
      | Some code \<Rightarrow> if code = [] then replace nid ''country:'' [] else code)"

definition countryImpact :: "datasets \<Rightarrow> string \<Rightarrow> string \<times> affected_node \<Rightarrow> country_impact" where
  "countryImpact ds sourceId kv =
     \<lparr>ci_country = countryCodeOf (fst kv) (snd kv),
      ci_countryName = node_name (an_node (snd kv)),
      ci_impactLevel = an_impactLevel (snd kv),
      affectedCapacity = getCapacityForCountry ds sourceId (countryCodeOf (fst kv) (snd kv))\<rparr>"

definition collectCountryImpacts ::
  "datasets \<Rightarrow> string \<Rightarrow> (string \<times> affected_node) list \<Rightarrow> country_impact list" where
  "collectCountryImpacts ds sourceId affected =
     map (countryImpact ds sourceId)
       (filter (\<lambda>kv. node_type (an_node (snd kv)) = Country) affected)"

definition severityOrder :: "impact_level \<Rightarrow> real" where
  "severityOrder l = (case l of Critical \<Rightarrow> 0 | High \<Rightarrow> 1 | Medium \<Rightarrow> 2 | Low \<Rightarrow> 3)"

text \<open>The comparator handed to \<open>sort\<close>: \<open>(order[a] - order[b]) || (b.cap - a.cap)\<close>.\<close>

definition compareImpacts :: "country_impact \<Rightarrow> country_impact \<Rightarrow> real" where
  "compareImpacts a b =
     (let diff = severityOrder (ci_impactLevel a) - severityOrder (ci_impactLevel b)
      in if diff \<noteq> 0 then diff else affectedCapacity b - affectedCapacity a)"

text \<open>\<open>Array.prototype.sort\<close> is stable; for a comparator that is a total preorder its
  result is the stable ordering, computed here by insertion from the right.\<close>

fun insertBy :: "('a \<Rightarrow> 'a \<Rightarrow> real) \<Rightarrow> 'a \<Rightarrow> 'a list \<Rightarrow> 'a list" where
  "insertBy cmp x [] = [x]"
| "insertBy cmp x (y # ys) = (if cmp x y \<le> 0 then x # y # ys else y # insertBy cmp x ys)"

definition sortBy :: "('a \<Rightarrow> 'a \<Rightarrow> real) \<Rightarrow> 'a list \<Rightarrow> 'a list" where
  "sortBy cmp xs = foldr (insertBy cmp) xs []"

subsection \<open>The cascade entry point and the statistics\<close>

definition calculateCascade ::
  "datasets \<Rightarrow> cache \<Rightarrow> string \<Rightarrow> real \<Rightarrow> cascade_result option \<times> cache" where
  "calculateCascade ds cachedGraph sourceId disruptionLevel =
     (case buildDependencyGraph ds cachedGraph of
        (g, cachedGraph') \<Rightarrow>
          (case map_get (nodes g) sourceId of
             None \<Rightarrow> (None, cachedGraph')
           | Some src \<Rightarrow>
               (case bfs g disruptionLevel [sourceId] []
                       [\<lparr>nodeId = sourceId, depth = 0, path = [sourceId]\<rparr>] of
                  (visited, affected) \<Rightarrow>
                    (Some \<lparr>source = src,
                           affectedNodes = map snd affected,
                           countriesAffected =
                             sortBy compareImpacts (collectCountryImpacts ds sourceId affected),
                           redundancies = findRedundancies ds sourceId\<rparr>,
                     cachedGraph'))))"

text \<open>The default value of the parameter \<open>disruptionLevel\<close>.\<close>

definition calculateCascadeDefault ::
  "datasets \<Rightarrow> cache \<Rightarrow> string \<Rightarrow> cascade_result option \<times> cache" where
  "calculateCascadeDefault ds cachedGraph sourceId = calculateCascade ds cachedGraph sourceId 1.0"

record graph_stats =
  gs_nodes :: nat
  gs_edges :: nat
  gs_cables :: nat
  gs_pipelines :: nat
  gs_countries :: nat

definition getGraphStats :: "datasets \<Rightarrow> cache \<Rightarrow> graph_stats \<times> cache" where
  "getGraphStats ds cachedGraph =
     (case buildDependencyGraph ds cachedGraph of
        (g, cachedGraph') \<Rightarrow>
          (\<lparr>gs_nodes = length (nodes g),
            gs_edges = length (edges g),
            gs_cables = length (filter (\<lambda>kv. node_type (snd kv) = Cable) (nodes g)),
            gs_pipelines = length (filter (\<lambda>kv. node_type (snd kv) = Pipeline) (nodes g)),
            gs_countries = length (filter (\<lambda>kv. node_type (snd kv) = Country) (nodes g))\<rparr>,
           cachedGraph'))"

subsection \<open>The cascade at a disruption level that is any JavaScript number\<close>

text \<open>
  \<open>disruptionLevel\<close> reaches \<open>calculateCascade\<close> from the caller without any test, so
  it can be NaN or an infinity, where the comparisons and the product of the loop do not
  behave as on the reals. This section repeats the loop for such a level; the numbers of
  the graph stay finite. On a finite level it is the loop above (lemma
  \<open>calculateCascadeAt_Num\<close>).
\<close>

datatype js_number = Num real | PosInf | NegInf | NaN

text \<open>The product of a finite number and a JavaScript number: zero times an infinity is
  NaN, and NaN stays NaN.\<close>

fun js_scale :: "real \<Rightarrow> js_number \<Rightarrow> js_number" where
  "js_scale a (Num x) = Num (a * x)"
| "js_scale a PosInf = (if 0 < a then PosInf else if a < 0 then NegInf else NaN)"
| "js_scale a NegInf = (if 0 < a then NegInf else if a < 0 then PosInf else NaN)"
| "js_scale a NaN = NaN"

text \<open>\<open>x < c\<close>, \<open>x > c\<close> and \<open>x >= c\<close> for a finite \<open>c\<close>: every comparison with NaN
  is false.\<close>

fun js_less :: "js_number \<Rightarrow> real \<Rightarrow> bool" where
  "js_less (Num x) c = (x < c)"
| "js_less PosInf c = False"
| "js_less NegInf c = True"
| "js_less NaN c = False"

fun js_greater :: "js_number \<Rightarrow> real \<Rightarrow> bool" where
  "js_greater (Num x) c = (c < x)"
| "js_greater PosInf c = True"
| "js_greater NegInf c = False"
| "js_greater NaN c = False"

fun js_atLeast :: "js_number \<Rightarrow> real \<Rightarrow> bool" where
  "js_atLeast (Num x) c = (c \<le> x)"
| "js_atLeast PosInf c = True"
| "js_atLeast NegInf c = False"
| "js_atLeast NaN c = False"

definition categorizeImpactAt :: "js_number \<Rightarrow> impact_level" where
  "categorizeImpactAt s =
     (if js_greater s 0.8 then Critical
      else if js_greater s 0.5 then High
      else if js_greater s 0.2 then Medium
      else Low)"

text \<open>\<open>edge.strength * disruptionLevel * (1 - (edge.redundancy || 0))\<close>, the products
  taken from the left.\<close>

definition impactStrengthAt :: "edge \<Rightarrow> js_number \<Rightarrow> js_number" where
  "impactStrengthAt e disruptionLevel =
     js_scale (1 - or_zero (redundancy e)) (js_scale (strength e) disruptionLevel)"

definition affectedEntryAt ::
  "node \<Rightarrow> edge \<Rightarrow> js_number \<Rightarrow> nat \<Rightarrow> string list \<Rightarrow> affected_node" where
  "affectedEntryAt targetNode e disruptionLevel dp pth =
     \<lparr>an_node = targetNode,
      an_impactLevel = categorizeImpactAt (impactStrengthAt e disruptionLevel),
      pathLength = dp + 1,
      dependencyChain = pth @ [edge_to e],
      redundancyAvailable = (or_zero (redundancy e) > 0.3),
      estimatedRecovery = map_option estimatedImpact (edge_metadata e)\<rparr>"

fun expandEdgesAt ::
  "graph \<Rightarrow> js_number \<Rightarrow> nat \<Rightarrow> string list \<Rightarrow> edge list \<Rightarrow> bfs_state \<Rightarrow> bfs_state" where
  "expandEdgesAt g l dp pth [] st = st"
| "expandEdgesAt g l dp pth (e # es) (visited, affected, queue) =
     (if edge_to e \<in> set visited then expandEdgesAt g l dp pth es (visited, affected, queue)
      else
        (case map_get (nodes g) (edge_to e) of
           None \<Rightarrow> expandEdgesAt g l dp pth es (set_add (edge_to e) visited, affected, queue)
         | Some targetNode \<Rightarrow>
             if js_less (impactStrengthAt e l) 0.05
             then expandEdgesAt g l dp pth es (set_add (edge_to e) visited, affected, queue)
             else expandEdgesAt g l dp pth es
                    (set_add (edge_to e) visited,
                     map_set (edge_to e) (affectedEntryAt targetNode e l dp pth) affected,
                     queue @ [\<lparr>nodeId = edge_to e, depth = dp + 1,
                               path = pth @ [edge_to e]\<rparr>])))"

lemma expandEdgesAt_measure:
  "edge_to ` set es \<subseteq> edgeTargets g \<Longrightarrow>
   expandEdgesAt g l dp pth es (v, a, q) = (v', a', q') \<Longrightarrow>
   card (edgeTargets g - set v') + length q' \<le> card (edgeTargets g - set v) + length q"
proof (induction es arbitrary: v a q)
  case Nil
  then show ?case by simp
next
  case (Cons e es)
  have sub: "edge_to ` set es \<subseteq> edgeTargets g" using Cons.prems(1) by auto
  show ?case
  proof (cases "edge_to e \<in> set v")
    case True
    with Cons.prems(2) have "expandEdgesAt g l dp pth es (v, a, q) = (v', a', q')" by simp
    from Cons.IH[OF sub this] show ?thesis .
  next
    case False
    have "edge_to e \<in> edgeTargets g" using Cons.prems(1) by auto
    then have "edgeTargets g - set (set_add (edge_to e) v)
               \<subset> edgeTargets g - set v"
      using False by (auto simp: set_add_def)
    then have dec:
      "card (edgeTargets g - set (set_add (edge_to e) v)) < card (edgeTargets g - set v)"
      using finite_edgeTargets[of g] by (intro psubset_card_mono) auto
    from Cons.prems(2) False consider
        (skip) "expandEdgesAt g l dp pth es (set_add (edge_to e) v, a, q) = (v', a', q')"
      | (push) n where
        "expandEdgesAt g l dp pth es
           (set_add (edge_to e) v, map_set (edge_to e) (affectedEntryAt n e l dp pth) a,
            q @ [\<lparr>nodeId = edge_to e, depth = dp + 1, path = pth @ [edge_to e]\<rparr>])
         = (v', a', q')"
      by (auto split: option.splits if_splits)
    then show ?thesis
    proof cases
      case skip
      from Cons.IH[OF sub skip] dec show ?thesis by linarith
    next
      case push
      from Cons.IH[OF sub push] dec show ?thesis by simp
    qed
  qed
qed

function bfsAt ::
  "graph \<Rightarrow> js_number \<Rightarrow> string list \<Rightarrow> (string \<times> affected_node) list \<Rightarrow> queue_item list
   \<Rightarrow> string list \<times> (string \<times> affected_node) list" where
  "bfsAt g l visited affected [] = (visited, affected)"
| "bfsAt g l visited affected (q # queue) =
     (if depth q \<ge> 3 then bfsAt g l visited affected queue
      else
        (case expandEdgesAt g l (depth q) (path q) (outgoingOf g (nodeId q))
                (visited, affected, queue) of
           (visited', affected', queue') \<Rightarrow> bfsAt g l visited' affected' queue'))"
  by pat_completeness auto
termination
proof (relation "measure (\<lambda>(g, l, v, a, q). card (edgeTargets g - set v) + length q)",
    goal_cases)
  case 1
  show ?case by simp
next
  case (2 g l visited affected q queue)
  show ?case by simp
next
  case (3 g l visited affected q queue visited' rest affected' queue')
  have sub: "edge_to ` set (outgoingOf g (nodeId q)) \<subseteq> edgeTargets g"
    using outgoingOf_subset by auto
  have "expandEdgesAt g l (depth q) (path q) (outgoingOf g (nodeId q))
          (visited, affected, queue) = (visited', affected', queue')"
    using 3(2,3) by simp
  from expandEdgesAt_measure[OF sub this] show ?case by simp
qed

definition calculateCascadeAt ::
  "datasets \<Rightarrow> cache \<Rightarrow> string \<Rightarrow> js_number \<Rightarrow> cascade_result option \<times> cache" where
  "calculateCascadeAt ds cachedGraph sourceId disruptionLevel =
     (case buildDependencyGraph ds cachedGraph of
        (g, cachedGraph') \<Rightarrow>
          (case map_get (nodes g) sourceId of
             None \<Rightarrow> (None, cachedGraph')
           | Some src \<Rightarrow>
               (case bfsAt g disruptionLevel [sourceId] []
                       [\<lparr>nodeId = sourceId, depth = 0, path = [sourceId]\<rparr>] of
                  (visited, affected) \<Rightarrow>
                    (Some \<lparr>source = src,
                           affectedNodes = map snd affected,
                           countriesAffected =
                             sortBy compareImpacts (collectCountryImpacts ds sourceId affected),
                           redundancies = findRedundancies ds sourceId\<rparr>,
                     cachedGraph'))))"

subsection \<open>States of the cache that the module can reach\<close>

text \<open>\<open>cachedGraph\<close> starts as \<open>null\<close>; only \<open>buildDependencyGraph\<close> (also through
  \<open>calculateCascade\<close> and \<open>getGraphStats\<close>) and \<open>clearGraphCache\<close> assign it.\<close>

inductive reachable :: "datasets \<Rightarrow> cache \<Rightarrow> bool" for ds :: datasets where
  initial: "reachable ds None"
| built: "reachable ds c \<Longrightarrow> reachable ds (snd (buildDependencyGraph ds c))"
| cleared: "reachable ds c \<Longrightarrow> reachable ds (clearGraphCache c)"

subsection \<open>A cable serving two countries\<close>

definition scenarioCable :: "string \<Rightarrow> string \<Rightarrow> string \<Rightarrow> string \<Rightarrow> cable" where
  "scenarioCable cid cname a b =
     \<lparr>cable_id = cid, cable_name = cname, cable_points = None, capacityTbps = None,
      rfsYear = None, owners = None, landingPoints = None,
      countriesServed = Some [\<lparr>cc_country = a, capacityShare = 0.6, isRedundant = False\<rparr>,
                              \<lparr>cc_country = b, capacityShare = 0.4, isRedundant = True\<rparr>]\<rparr>"

definition scenarioData :: "string \<Rightarrow> string \<Rightarrow> string \<Rightarrow> string \<Rightarrow> datasets" where
  "scenarioData cid cname a b =
     \<lparr>UNDERSEA_CABLES = [scenarioCable cid cname a b], PIPELINES = [], PORTS = [],
      STRATEGIC_WATERWAYS = []\<rparr>"

subsection \<open>A pipeline through three countries\<close>

definition scenarioPipeline :: pipeline where
  "scenarioPipeline =
     \<lparr>pipeline_id = ''p1'', pipeline_name = ''Pipeline One'', pipeline_points = None,
      pipeline_type = ''oil'', pipeline_status = ''operating'', pipeline_capacity = None,
      pipeline_operator = None, pipeline_countries = Some [''USA'', ''Canada'', ''MX'']\<rparr>"

definition pipelineScenario :: datasets where
  "pipelineScenario =
     \<lparr>UNDERSEA_CABLES = [], PIPELINES = [scenarioPipeline], PORTS = [],
      STRATEGIC_WATERWAYS = []\<rparr>"

subsection \<open>The redundancy candidates as the specification words them\<close>

text \<open>The set of countries a cable serves; the entries of another cable that fall into
  the served set of the source cable; the mean capacity share of a list of entries in a
  given arithmetic (the shares added from the left, starting at 0, and the sum divided
  by their number); one candidate for every other cable whose served set overlaps that
  of the source, in dataset order.\<close>

definition servedCountries :: "cable \<Rightarrow> string set" where
  "servedCountries c = cc_country ` set (opt_list (countriesServed c))"

definition overlappingEntries :: "cable \<Rightarrow> cable \<Rightarrow> country_capacity list" where
  "overlappingEntries src c =
     filter (\<lambda>cs. cc_country cs \<in> servedCountries src) (opt_list (countriesServed c))"

definition meanCapacityShare :: "arithmetic \<Rightarrow> country_capacity list \<Rightarrow> real" where
  "meanCapacityShare ar xs =
     num_divide ar (foldl (num_add ar) 0 (map capacityShare xs)) (real (length xs))"

definition redundancyCandidates ::
  "arithmetic \<Rightarrow> datasets \<Rightarrow> cable \<Rightarrow> redundancy_candidate list" where
  "redundancyCandidates ar ds src =
     map (\<lambda>c. \<lparr>rc_id = cable_id c, rc_name = cable_name c,
                rc_capacityShare = meanCapacityShare ar (overlappingEntries src c)\<rparr>)
       (filter (\<lambda>c. cable_id c \<noteq> cable_id src
                   \<and> servedCountries c \<inter> servedCountries src \<noteq> {})
          (UNDERSEA_CABLES ds))"

subsection \<open>Eight cables around two countries\<close>

text \<open>The shares are binary fractions: their sums and means are the same in doubles
  as in the reals.\<close>

definition servingCable :: "string \<Rightarrow> (string \<times> real) list \<Rightarrow> cable" where
  "servingCable cid shares =
     \<lparr>cable_id = cid, cable_name = cid, cable_points = None, capacityTbps = None,
      rfsYear = None, owners = None, landingPoints = None,
      countriesServed =
        Some (map (\<lambda>(c, s). \<lparr>cc_country = c, capacityShare = s, isRedundant = False\<rparr>) shares)\<rparr>"

definition redundancyScenario :: datasets where
  "redundancyScenario =
     \<lparr>UNDERSEA_CABLES =
        [servingCable ''c0'' [(''A'', 0.5), (''B'', 0.5)],
         servingCable ''c1'' [(''A'', 0.25), (''B'', 0.5)],
         servingCable ''c2'' [(''C'', 1)],
         servingCable ''c3'' [(''A'', 0.5)],
         servingCable ''c4'' [(''B'', 0.125)],
         servingCable ''c5'' [(''A'', 0.75)],
         servingCable ''c6'' [(''A'', 1), (''C'', 0.25)],
         servingCable ''c7'' [(''A'', 0.25)]],
      PIPELINES = [], PORTS = [], STRATEGIC_WATERWAYS = []\<rparr>"

subsection \<open>A cable with a served country of share zero\<close>

definition zeroShareScenario :: datasets where
  "zeroShareScenario =
     \<lparr>UNDERSEA_CABLES = [servingCable ''z'' [(''A'', 0)]], PIPELINES = [], PORTS = [],
      STRATEGIC_WATERWAYS = []\<rparr>"

subsection \<open>The capacity share of a cable for a country, and the order of the impacts\<close>

text \<open>The capacity share that a cable records for a country: that of its served-country
  entry for the country, if it has one.\<close>

definition capacityShareOf :: "cable \<Rightarrow> string \<Rightarrow> real option" where
  "capacityShareOf cb code =
     map_option capacityShare
       (find (\<lambda>cs. cc_country cs = code) (opt_list (countriesServed cb)))"

text \<open>Ascending severity rank, then descending affected capacity.\<close>

definition impactOrder :: "country_impact \<Rightarrow> country_impact \<Rightarrow> bool" where
  "impactOrder x y =
     (severityOrder (ci_impactLevel x) < severityOrder (ci_impactLevel y)
      \<or> (severityOrder (ci_impactLevel x) = severityOrder (ci_impactLevel y)
          \<and> affectedCapacity y \<le> affectedCapacity x))"

subsection \<open>A cable that lands in a country it does not serve\<close>

definition landingCable :: cable where
  "landingCable =
     \<lparr>cable_id = ''c1'', cable_name = ''Cable One'', cable_points = None, capacityTbps = None,
      rfsYear = None, owners = None,
      landingPoints = Some [\<lparr>lp_country = ''ES''\<rparr>, \<lparr>lp_country = ''FR''\<rparr>],
      countriesServed = Some [\<lparr>cc_country = ''ES'', capacityShare = 0.7, isRedundant = False\<rparr>]\<rparr>"

definition landingScenario :: datasets where
  "landingScenario =
     \<lparr>UNDERSEA_CABLES = [landingCable], PIPELINES = [], PORTS = [],
      STRATEGIC_WATERWAYS = []\<rparr>"

subsection \<open>Auxiliary notions for the proofs\<close>

text \<open>The five node loops are instances of one fold.\<close>

definition addNodes :: "('x \<Rightarrow> string) \<Rightarrow> ('x \<Rightarrow> node) \<Rightarrow> 'x list \<Rightarrow> graph \<Rightarrow> graph" where
  "addNodes kf vf xs g = foldl (\<lambda>g x. g\<lparr>nodes := map_set (kf x) (vf x) (nodes g)\<rparr>) g xs"

text \<open>The graph after the five node loops, before any edge is added.\<close>

definition nodesOnly :: "datasets \<Rightarrow> graph" where
  "nodesOnly ds =
     addCountriesAsNodes ds
       (addChokepointsAsNodes ds
         (addPortsAsNodes ds
           (addPipelinesAsNodes ds
             (addCablesAsNodes ds emptyGraph))))"

text \<open>The edges a pipeline contributes when every country of its list has a node.\<close>

definition pipelineEdges :: "pipeline \<Rightarrow> edge list" where
  "pipelineEdges p =
     map (pipelineEdge (''pipeline:'' @ pipeline_id p)) (opt_list (pipeline_countries p))"

text \<open>The \<open>outgoing\<close> index agrees with the edge sequence.\<close>

definition outgoingConsistent :: "graph \<Rightarrow> bool" where
  "outgoingConsistent g = (\<forall>k. outgoingOf g k = filter (\<lambda>e. edge_from e = k) (edges g))"

section \<open>Properties\<close>

subsection \<open>The cache\<close>

lemma reachable_cases: "reachable ds c \<Longrightarrow> c = None \<or> c = Some (freshGraph ds)"
  by (induction rule: reachable.induct)
    (auto simp: buildDependencyGraph_def clearGraphCache_def Let_def)

lemma reachable_graph:
  assumes "reachable ds c"
  shows "fst (buildDependencyGraph ds c) = freshGraph ds"
  using reachable_cases[OF assms] by (auto simp: buildDependencyGraph_def Let_def)

lemma calculateCascade_cache:
  "snd (calculateCascade ds c sid d) = snd (buildDependencyGraph ds c)"
  by (simp add: calculateCascade_def split: prod.splits option.splits)

subsection \<open>Invariants of the propagation loop\<close>

lemma set_map_set: "set (map_set k v m) \<subseteq> insert (k, v) (set m)"
  by (induction m) (auto split: if_splits)

lemma expandEdges_affected_inv:
  assumes "\<forall>kv \<in> set a. P kv"
    and "\<And>e n. e \<in> set es \<Longrightarrow> map_get (nodes g) (edge_to e) = Some n \<Longrightarrow>
           \<not> impactStrength e d < 0.05 \<Longrightarrow> P (edge_to e, affectedEntry n e d dp pth)"
  shows "\<forall>kv \<in> set (fst (snd (expandEdges g d dp pth es (v, a, q)))). P kv"
  using assms
proof (induction es arbitrary: v a q)
  case Nil
  then show ?case by simp
next
  case (Cons e es)
  have step: "\<And>e' n. e' \<in> set es \<Longrightarrow> map_get (nodes g) (edge_to e') = Some n \<Longrightarrow>
           \<not> impactStrength e' d < 0.05 \<Longrightarrow> P (edge_to e', affectedEntry n e' d dp pth)"
    using Cons.prems(2) by simp
  show ?case
  proof (cases "edge_to e \<in> set v")
    case True
    then show ?thesis using Cons.IH[OF Cons.prems(1) step] by simp
  next
    case False
    show ?thesis
    proof (cases "map_get (nodes g) (edge_to e)")
      case None
      then show ?thesis using False Cons.IH[OF Cons.prems(1) step] by simp
    next
      case (Some n)
      show ?thesis
      proof (cases "impactStrength e d < 0.05")
        case True
        then show ?thesis using False Some Cons.IH[OF Cons.prems(1) step] by simp
      next
        case notlow: False
        have "P (edge_to e, affectedEntry n e d dp pth)"
          using Cons.prems(2)[of e n] Some notlow by simp
        then have "\<forall>kv \<in> set (map_set (edge_to e) (affectedEntry n e d dp pth) a). P kv"
          using Cons.prems(1) set_map_set[of "edge_to e" "affectedEntry n e d dp pth" a]
          by auto
        from Cons.IH[OF this step] show ?thesis using False Some notlow by simp
      qed
    qed
  qed
qed

lemma bfs_affected_inv:
  assumes "\<forall>kv \<in> set a. P kv"
    and "\<And>k e n dp pth. e \<in> set (outgoingOf g k) \<Longrightarrow> dp < 3 \<Longrightarrow>
           map_get (nodes g) (edge_to e) = Some n \<Longrightarrow>
           \<not> impactStrength e d < 0.05 \<Longrightarrow> P (edge_to e, affectedEntry n e d dp pth)"
  shows "\<forall>kv \<in> set (snd (bfs g d v a q)). P kv"
  using assms
proof (induction g d v a q rule: bfs.induct)
  case (1 g d visited affected)
  then show ?case by simp
next
  case (2 g d visited affected q queue)
  note created = "2.prems"(2)
  show ?case
  proof (cases "3 \<le> depth q")
    case True
    then show ?thesis using "2.IH"(1)[OF True "2.prems"(1) created] by simp
  next
    case False
    then have dlt: "depth q < 3" by simp
    obtain v' a' q' where ex:
      "expandEdges g d (depth q) (path q) (outgoingOf g (nodeId q)) (visited, affected, queue)
       = (v', a', q')"
      by (metis prod_cases3)
    have "\<forall>kv \<in> set (fst (snd (expandEdges g d (depth q) (path q) (outgoingOf g (nodeId q))
             (visited, affected, queue)))). P kv"
      by (rule expandEdges_affected_inv[OF "2.prems"(1)], rule created[OF _ dlt], assumption+)
    then have "\<forall>kv \<in> set a'. P kv" using ex by simp
    from "2.IH"(2)[OF False ex[symmetric] refl this created]
    show ?thesis using False ex by simp
  qed
qed

lemma calculateCascade_found:
  assumes "map_get (nodes (fst (buildDependencyGraph ds c))) sid = Some src"
  shows "fst (calculateCascade ds c sid d) =
         Some \<lparr>source = src,
               affectedNodes = map snd (snd (bfs (fst (buildDependencyGraph ds c)) d [sid] []
                   [\<lparr>nodeId = sid, depth = 0, path = [sid]\<rparr>])),
               countriesAffected = sortBy compareImpacts (collectCountryImpacts ds sid
                 (snd (bfs (fst (buildDependencyGraph ds c)) d [sid] []
                   [\<lparr>nodeId = sid, depth = 0, path = [sid]\<rparr>]))),
               redundancies = findRedundancies ds sid\<rparr>"
  using assms by (auto simp add: calculateCascade_def simp del: bfs.simps split: prod.splits)

lemma impactStrength_zero: "impactStrength e 0 = 0"
  by (simp add: impactStrength_def)

subsection \<open>What the builder puts into the graph\<close>

lemma map_of_map_set: "map_of (map_set k v m) = (map_of m)(k \<mapsto> v)"
  by (induction m) (auto simp: fun_eq_iff)

lemma map_get_map_set: "map_get (map_set k v m) k' = (if k' = k then Some v else map_get m k')"
  by (simp add: map_get_def map_of_map_set)

lemma set_foldl_set_add: "set (foldl (\<lambda>s x. set_add (f x) s) s0 xs) = set s0 \<union> f ` set xs"
  by (induction xs arbitrary: s0) (auto simp: set_add_def)

lemma set_cableCountries:
  "set (cableCountries c s) =
     set s \<union> cc_country ` set (opt_list (countriesServed c))
           \<union> lp_country ` set (opt_list (landingPoints c))"
  by (simp add: cableCountries_def set_foldl_set_add)

lemma set_pipelineCountries:
  "set (pipelineCountries p s) =
     set s \<union> pipelineCountryCode ` set (opt_list (pipeline_countries p))"
  by (simp add: pipelineCountries_def set_foldl_set_add)

lemma set_foldl_cableCountries:
  "set (foldl (\<lambda>s c. cableCountries c s) s0 cs) =
     set s0 \<union> (\<Union>c \<in> set cs. cc_country ` set (opt_list (countriesServed c))
                               \<union> lp_country ` set (opt_list (landingPoints c)))"
  by (induction cs arbitrary: s0) (auto simp: set_cableCountries)

lemma set_foldl_pipelineCountries:
  "set (foldl (\<lambda>s p. pipelineCountries p s) s0 ps) =
     set s0 \<union> (\<Union>p \<in> set ps. pipelineCountryCode ` set (opt_list (pipeline_countries p)))"
  by (induction ps arbitrary: s0) (auto simp: set_pipelineCountries)

lemma set_collectCountries:
  "set (collectCountries ds) =
     (\<Union>c \<in> set (UNDERSEA_CABLES ds). cc_country ` set (opt_list (countriesServed c))
                                       \<union> lp_country ` set (opt_list (landingPoints c)))
     \<union> (\<Union>p \<in> set (PIPELINES ds). pipelineCountryCode ` set (opt_list (pipeline_countries p)))"
  by (simp add: collectCountries_def set_foldl_pipelineCountries set_foldl_cableCountries)

lemma addNodes_Nil: "addNodes kf vf [] g = g"
  by (simp add: addNodes_def)

lemma addNodes_Cons:
  "addNodes kf vf (x # xs) g = addNodes kf vf xs (g\<lparr>nodes := map_set (kf x) (vf x) (nodes g)\<rparr>)"
  by (simp add: addNodes_def)

lemma addNodes_rest:
  "edges (addNodes kf vf xs g) = edges g"
  "outgoing (addNodes kf vf xs g) = outgoing g"
  "incoming (addNodes kf vf xs g) = incoming g"
  by (induction xs arbitrary: g) (simp_all add: addNodes_Nil addNodes_Cons)

lemma addNodes_other:
  "k \<notin> kf ` set xs \<Longrightarrow> map_get (nodes (addNodes kf vf xs g)) k = map_get (nodes g) k"
  by (induction xs arbitrary: g) (auto simp: addNodes_Nil addNodes_Cons map_get_map_set)

lemma addNodes_member:
  "x \<in> set xs \<Longrightarrow>
   \<exists>x' \<in> set xs. kf x' = kf x \<and> map_get (nodes (addNodes kf vf xs g)) (kf x) = Some (vf x')"
proof (induction xs arbitrary: g x)
  case Nil
  then show ?case by simp
next
  case (Cons y ys)
  show ?case
  proof (cases "kf x \<in> kf ` set ys")
    case True
    then obtain z where z: "z \<in> set ys" "kf z = kf x" by auto
    from Cons.IH[OF z(1), of "g\<lparr>nodes := map_set (kf y) (vf y) (nodes g)\<rparr>"] z(2)
    show ?thesis by (auto simp: addNodes_Cons)
  next
    case False
    with Cons.prems have xy: "x = y" by auto
    have "map_get (nodes (addNodes kf vf (y # ys) g)) (kf x) = Some (vf y)"
      using False xy by (simp add: addNodes_Cons addNodes_other map_get_map_set)
    then show ?thesis using xy by auto
  qed
qed

lemma addNodes_lookup:
  "map_get (nodes (addNodes kf vf xs g)) k = Some v \<Longrightarrow>
   (\<exists>x \<in> set xs. kf x = k \<and> v = vf x) \<or> (k \<notin> kf ` set xs \<and> map_get (nodes g) k = Some v)"
proof (cases "k \<in> kf ` set xs")
  case True
  assume v: "map_get (nodes (addNodes kf vf xs g)) k = Some v"
  from True obtain x where "x \<in> set xs" "kf x = k" by auto
  from addNodes_member[OF this(1), of kf vf g] this(2) v show ?thesis by auto
next
  case False
  assume "map_get (nodes (addNodes kf vf xs g)) k = Some v"
  with False show ?thesis by (simp add: addNodes_other)
qed

lemma node_loops:
  "addCablesAsNodes ds = addNodes (\<lambda>c. ''cable:'' @ cable_id c) cableNode (UNDERSEA_CABLES ds)"
  "addPipelinesAsNodes ds =
     addNodes (\<lambda>p. ''pipeline:'' @ pipeline_id p) pipelineNode (PIPELINES ds)"
  "addPortsAsNodes ds = addNodes (\<lambda>p. ''port:'' @ port_id p) portNode (PORTS ds)"
  "addChokepointsAsNodes ds =
     addNodes (\<lambda>w. ''chokepoint:'' @ waterway_id w) chokepointNode (STRATEGIC_WATERWAYS ds)"
  "addCountriesAsNodes ds = addNodes (\<lambda>c. ''country:'' @ c) countryNode (collectCountries ds)"
  by (simp_all add: fun_eq_iff addNodes_def addCablesAsNodes_def addPipelinesAsNodes_def
      addPortsAsNodes_def addChokepointsAsNodes_def addCountriesAsNodes_def)

lemma nodesOnly_rest:
  "edges (nodesOnly ds) = []" "outgoing (nodesOnly ds) = []" "incoming (nodesOnly ds) = []"
  by (simp_all add: nodesOnly_def node_loops addNodes_rest emptyGraph_def)

lemma nodesOnly_country:
  assumes "code \<in> set (collectCountries ds)"
  shows "map_get (nodes (nodesOnly ds)) (''country:'' @ code) = Some (countryNode code)"
proof -
  from addNodes_member[OF assms, of "\<lambda>c. ''country:'' @ c" countryNode]
  show ?thesis by (auto simp: nodesOnly_def node_loops(5))
qed

lemma nodesOnly_cable:
  assumes "c \<in> set (UNDERSEA_CABLES ds)"
  shows "\<exists>c' \<in> set (UNDERSEA_CABLES ds). cable_id c' = cable_id c \<and>
           map_get (nodes (nodesOnly ds)) (''cable:'' @ cable_id c) = Some (cableNode c')"
proof -
  have "map_get (nodes (nodesOnly ds)) (''cable:'' @ cable_id c)
        = map_get (nodes (addCablesAsNodes ds emptyGraph)) (''cable:'' @ cable_id c)"
    unfolding nodesOnly_def node_loops
    by (subst addNodes_other, force)+ simp
  with addNodes_member[OF assms, of "\<lambda>c. ''cable:'' @ cable_id c" cableNode emptyGraph]
  show ?thesis by (auto simp: node_loops(1))
qed

lemma nodesOnly_pipeline:
  assumes "p \<in> set (PIPELINES ds)"
  shows "\<exists>p' \<in> set (PIPELINES ds). pipeline_id p' = pipeline_id p \<and>
           map_get (nodes (nodesOnly ds)) (''pipeline:'' @ pipeline_id p) = Some (pipelineNode p')"
proof -
  have "map_get (nodes (nodesOnly ds)) (''pipeline:'' @ pipeline_id p)
        = map_get (nodes (addPipelinesAsNodes ds (addCablesAsNodes ds emptyGraph)))
            (''pipeline:'' @ pipeline_id p)"
    unfolding nodesOnly_def node_loops
    by (subst addNodes_other, force)+ simp
  with addNodes_member[OF assms, of "\<lambda>p. ''pipeline:'' @ pipeline_id p" pipelineNode
      "addCablesAsNodes ds emptyGraph"]
  show ?thesis by (auto simp: node_loops(2))
qed

text \<open>Every node of the graph came from one of the five loops, under the key that
  carries the prefix of its kind.\<close>

lemma nodesOnly_lookup:
  assumes "map_get (nodes (nodesOnly ds)) k = Some n"
  shows "(\<exists>c \<in> set (collectCountries ds). k = ''country:'' @ c \<and> n = countryNode c)
       \<or> (\<exists>w \<in> set (STRATEGIC_WATERWAYS ds). k = ''chokepoint:'' @ waterway_id w \<and> n = chokepointNode w)
       \<or> (\<exists>p \<in> set (PORTS ds). k = ''port:'' @ port_id p \<and> n = portNode p)
       \<or> (\<exists>p \<in> set (PIPELINES ds). k = ''pipeline:'' @ pipeline_id p \<and> n = pipelineNode p)
       \<or> (\<exists>c \<in> set (UNDERSEA_CABLES ds). k = ''cable:'' @ cable_id c \<and> n = cableNode c)"
proof -
  note l = addNodes_lookup
  from assms show ?thesis
    unfolding nodesOnly_def node_loops
    apply (drule_tac l)
    apply (erule disjE, blast)
    apply (erule conjE, drule l)
    apply (erule disjE, blast)
    apply (erule conjE, drule l)
    apply (erule disjE, blast)
    apply (erule conjE, drule l)
    apply (erule disjE, blast)
    apply (erule conjE, drule l)
    apply (erule disjE, blast)
    apply (simp add: emptyGraph_def map_get_def)
    done
qed

subsection \<open>Edges and the outgoing index\<close>

lemma map_push_lookup:
  "opt_list (map_get (map_push k e m) k') =
     (if k' = k then opt_list (map_get m k) @ [e] else opt_list (map_get m k'))"
  by (cases "map_get m k")
    (simp_all add: map_push_def map_has_def map_get_map_set opt_list_def)

lemma addEdge_nodes: "nodes (addEdge g e) = nodes g"
  by (simp add: addEdge_def)

lemma addEdge_edges: "edges (addEdge g e) = edges g @ [e]"
  by (simp add: addEdge_def)

lemma addEdge_consistent: "outgoingConsistent g \<Longrightarrow> outgoingConsistent (addEdge g e)"
  by (simp add: outgoingConsistent_def outgoingOf_def addEdge_def map_push_lookup)

lemma foldl_addEdge:
  "nodes (foldl addEdge g es) = nodes g"
  "edges (foldl addEdge g es) = edges g @ es"
  "outgoingConsistent g \<Longrightarrow> outgoingConsistent (foldl addEdge g es)"
  by (induction es arbitrary: g) (simp_all add: addEdge_nodes addEdge_edges addEdge_consistent)

lemma foldl_foldl_addEdge:
  "nodes (foldl (\<lambda>g x. foldl addEdge g (f x)) g xs) = nodes g"
  "edges (foldl (\<lambda>g x. foldl addEdge g (f x)) g xs) = edges g @ concat (map f xs)"
  "outgoingConsistent g \<Longrightarrow> outgoingConsistent (foldl (\<lambda>g x. foldl addEdge g (f x)) g xs)"
  by (induction xs arbitrary: g) (simp_all add: foldl_addEdge)

lemma pipeline_inner_loop:
  assumes "\<forall>c \<in> set cs. map_has (nodes g) (''country:'' @ pipelineCountryCode c)"
  shows "foldl (addPipelineCountryEdge pid) g cs = foldl addEdge g (map (pipelineEdge pid) cs)"
  using assms
proof (induction cs arbitrary: g)
  case Nil
  then show ?case by simp
next
  case (Cons c cs)
  have "\<forall>c' \<in> set cs. map_has (nodes (addEdge g (pipelineEdge pid c)))
          (''country:'' @ pipelineCountryCode c')"
    using Cons.prems by (simp add: addEdge_nodes)
  from Cons.IH[OF this] Cons.prems show ?case
    by (simp add: addPipelineCountryEdge_def)
qed

lemma pipeline_outer_loop:
  assumes "\<forall>p \<in> set ps. \<forall>c \<in> set (opt_list (pipeline_countries p)).
             map_has (nodes g) (''country:'' @ pipelineCountryCode c)"
  shows "foldl (\<lambda>g p. foldl (addPipelineCountryEdge (''pipeline:'' @ pipeline_id p)) g
                         (opt_list (pipeline_countries p))) g ps
       = foldl (\<lambda>g p. foldl addEdge g (pipelineEdges p)) g ps"
  using assms
proof (induction ps arbitrary: g)
  case Nil
  then show ?case by simp
next
  case (Cons p ps)
  let ?g' = "foldl addEdge g (pipelineEdges p)"
  have inner: "foldl (addPipelineCountryEdge (''pipeline:'' @ pipeline_id p)) g
                 (opt_list (pipeline_countries p)) = ?g'"
    unfolding pipelineEdges_def by (rule pipeline_inner_loop) (use Cons.prems in simp)
  have "\<forall>q \<in> set ps. \<forall>c \<in> set (opt_list (pipeline_countries q)).
             map_has (nodes ?g') (''country:'' @ pipelineCountryCode c)"
    using Cons.prems by (simp add: foldl_addEdge)
  from Cons.IH[OF this] inner show ?case by simp
qed

lemma freshGraph_nodesOnly:
  "freshGraph ds = buildPipelineCountryEdges ds (buildCableCountryEdges ds (nodesOnly ds))"
  by (simp add: freshGraph_def nodesOnly_def)

lemma nodesOnly_consistent: "outgoingConsistent (nodesOnly ds)"
  by (simp add: outgoingConsistent_def outgoingOf_def nodesOnly_rest map_get_def opt_list_def)

lemma cable_edges_graph:
  "nodes (buildCableCountryEdges ds (nodesOnly ds)) = nodes (nodesOnly ds)"
  "edges (buildCableCountryEdges ds (nodesOnly ds)) = concat (map cableEdges (UNDERSEA_CABLES ds))"
  "outgoingConsistent (buildCableCountryEdges ds (nodesOnly ds))"
  unfolding buildCableCountryEdges_def
  by (simp_all add: foldl_foldl_addEdge nodesOnly_rest nodesOnly_consistent)

lemma pipeline_guard:
  assumes "p \<in> set (PIPELINES ds)" and "c \<in> set (opt_list (pipeline_countries p))"
  shows "map_has (nodes (nodesOnly ds)) (''country:'' @ pipelineCountryCode c)"
proof -
  have "pipelineCountryCode c \<in> set (collectCountries ds)"
    using assms by (auto simp: set_collectCountries)
  from nodesOnly_country[OF this] show ?thesis by (simp add: map_has_def)
qed

lemma pipeline_edges_graph:
  "buildPipelineCountryEdges ds (buildCableCountryEdges ds (nodesOnly ds))
   = foldl (\<lambda>g p. foldl addEdge g (pipelineEdges p))
       (buildCableCountryEdges ds (nodesOnly ds)) (PIPELINES ds)"
  unfolding buildPipelineCountryEdges_def
  by (rule pipeline_outer_loop) (use pipeline_guard in \<open>simp only: cable_edges_graph, blast\<close>)

lemma freshGraph_nodes: "nodes (freshGraph ds) = nodes (nodesOnly ds)"
  by (simp add: freshGraph_nodesOnly pipeline_edges_graph foldl_foldl_addEdge cable_edges_graph)

lemma freshGraph_edges:
  "edges (freshGraph ds) =
     concat (map cableEdges (UNDERSEA_CABLES ds)) @ concat (map pipelineEdges (PIPELINES ds))"
  by (simp add: freshGraph_nodesOnly pipeline_edges_graph foldl_foldl_addEdge cable_edges_graph)

lemma freshGraph_outgoing:
  "outgoingOf (freshGraph ds) k = filter (\<lambda>e. edge_from e = k) (edges (freshGraph ds))"
proof -
  have "outgoingConsistent (freshGraph ds)"
    by (simp add: freshGraph_nodesOnly pipeline_edges_graph foldl_foldl_addEdge cable_edges_graph)
  then show ?thesis by (simp add: outgoingConsistent_def)
qed

subsection \<open>The shape of the built graph\<close>

lemma edge_shape:
  assumes "e \<in> set (edges (freshGraph ds))"
  shows "(\<exists>code \<in> set (collectCountries ds). edge_to e = ''country:'' @ code)
       \<and> ((\<exists>c \<in> set (UNDERSEA_CABLES ds). edge_from e = ''cable:'' @ cable_id c)
          \<or> (\<exists>p \<in> set (PIPELINES ds). edge_from e = ''pipeline:'' @ pipeline_id p))"
  using assms
  unfolding freshGraph_edges set_collectCountries cableEdges_def pipelineEdges_def
  by (fastforce simp: servesEdge_def landsAtEdge_def pipelineEdge_def)

lemma edge_target_node:
  assumes "e \<in> set (edges (freshGraph ds))"
  shows "\<exists>code. edge_to e = ''country:'' @ code
           \<and> map_get (nodes (freshGraph ds)) (edge_to e) = Some (countryNode code)"
  using edge_shape[OF assms] nodesOnly_country[of _ ds] by (auto simp: freshGraph_nodes)

lemma edge_source_node:
  assumes "e \<in> set (edges (freshGraph ds))"
  shows "\<exists>n. map_get (nodes (freshGraph ds)) (edge_from e) = Some n
           \<and> (node_type n = Cable \<or> node_type n = Pipeline)"
proof -
  from edge_shape[OF assms] consider
      c where "c \<in> set (UNDERSEA_CABLES ds)" "edge_from e = ''cable:'' @ cable_id c"
    | p where "p \<in> set (PIPELINES ds)" "edge_from e = ''pipeline:'' @ pipeline_id p"
    by auto
  then show ?thesis
  proof cases
    case 1
    from nodesOnly_cable[OF 1(1)] 1(2) show ?thesis
      by (auto simp: freshGraph_nodes cableNode_def)
  next
    case 2
    from nodesOnly_pipeline[OF 2(1)] 2(2) show ?thesis
      by (auto simp: freshGraph_nodes pipelineNode_def)
  qed
qed

lemma outgoing_edges: "e \<in> set (outgoingOf (freshGraph ds) k) \<Longrightarrow> e \<in> set (edges (freshGraph ds))"
  by (simp add: freshGraph_outgoing)

lemma country_key_no_outgoing: "outgoingOf (freshGraph ds) (''country:'' @ code) = []"
proof -
  have "edge_from e \<noteq> ''country:'' @ code" if "e \<in> set (edges (freshGraph ds))" for e
    using edge_shape[OF that] by auto
  then show ?thesis by (simp add: freshGraph_outgoing filter_empty_conv)
qed

lemma country_node_key:
  assumes "map_get (nodes (freshGraph ds)) k = Some n" and "node_type n = Country"
  shows "\<exists>code. k = ''country:'' @ code \<and> n = countryNode code"
  using nodesOnly_lookup[of ds k n] assms
  by (auto simp: freshGraph_nodes chokepointNode_def portNode_def pipelineNode_def cableNode_def)

subsection \<open>The propagation on the built graph\<close>

lemma expandEdges_queue_inv:
  assumes "\<forall>x \<in> set q. Q x"
    and "\<And>e. e \<in> set es \<Longrightarrow> Q \<lparr>nodeId = edge_to e, depth = dp + 1, path = pth @ [edge_to e]\<rparr>"
  shows "\<forall>x \<in> set (snd (snd (expandEdges g d dp pth es (v, a, q)))). Q x"
  using assms
proof (induction es arbitrary: v a q)
  case Nil
  then show ?case by simp
next
  case (Cons e es)
  have step: "\<And>e'. e' \<in> set es \<Longrightarrow>
      Q \<lparr>nodeId = edge_to e', depth = dp + 1, path = pth @ [edge_to e']\<rparr>"
    using Cons.prems(2) by simp
  have new: "\<forall>x \<in> set (q @ [\<lparr>nodeId = edge_to e, depth = dp + 1, path = pth @ [edge_to e]\<rparr>]). Q x"
    using Cons.prems by simp
  show ?case
    using Cons.IH[OF Cons.prems(1) step] Cons.IH[OF new step]
    by (simp split: option.splits)
qed

lemma bfs_no_outgoing:
  assumes "\<forall>x \<in> set q. outgoingOf g (nodeId x) = []"
  shows "bfs g d v a q = (v, a)"
  using assms by (induction q) simp_all

lemma bfs_fresh:
  "snd (bfs (freshGraph ds) d [sid] [] [\<lparr>nodeId = sid, depth = 0, path = [sid]\<rparr>])
   = fst (snd (expandEdges (freshGraph ds) d 0 [sid] (outgoingOf (freshGraph ds) sid)
                 ([sid], [], [])))"
proof -
  let ?g = "freshGraph ds"
  obtain v' a' q' where ex:
    "expandEdges ?g d 0 [sid] (outgoingOf ?g sid) ([sid], [], []) = (v', a', q')"
    by (metis prod_cases3)
  have "\<forall>x \<in> set (snd (snd (expandEdges ?g d 0 [sid] (outgoingOf ?g sid) ([sid], [], [])))).
          outgoingOf ?g (nodeId x) = []"
  proof (rule expandEdges_queue_inv)
    show "\<forall>x \<in> set []. outgoingOf ?g (nodeId x) = []" by simp
  next
    fix e assume "e \<in> set (outgoingOf ?g sid)"
    from edge_shape[OF outgoing_edges[OF this]]
    obtain code where "edge_to e = ''country:'' @ code" by blast
    with country_key_no_outgoing[of ds code]
    show "outgoingOf ?g (nodeId \<lparr>nodeId = edge_to e, depth = 0 + 1, path = [sid] @ [edge_to e]\<rparr>) = []"
      by simp
  qed
  then have "bfs ?g d v' a' q' = (v', a')" using ex by (simp add: bfs_no_outgoing)
  then show ?thesis using ex by simp
qed

text \<open>Every entry of the \<open>affected\<close> map was recorded in the first round, from an edge
  that leaves the source and ends in a country node.\<close>

lemma fresh_affected:
  assumes "kv \<in> set (snd (bfs (freshGraph ds) d [sid] []
                              [\<lparr>nodeId = sid, depth = 0, path = [sid]\<rparr>]))"
  shows "\<exists>code e. e \<in> set (outgoingOf (freshGraph ds) sid)
           \<and> edge_to e = ''country:'' @ code
           \<and> \<not> impactStrength e d < 0.05
           \<and> kv = (''country:'' @ code, affectedEntry (countryNode code) e d 0 [sid])"
proof -
  let ?g = "freshGraph ds"
  let ?P = "\<lambda>kv. \<exists>code e. e \<in> set (outgoingOf ?g sid)
           \<and> edge_to e = ''country:'' @ code
           \<and> \<not> impactStrength e d < 0.05
           \<and> kv = (''country:'' @ code, affectedEntry (countryNode code) e d 0 [sid])"
  have "\<forall>kv \<in> set (fst (snd (expandEdges ?g d 0 [sid] (outgoingOf ?g sid) ([sid], [], [])))).
          ?P kv"
  proof (rule expandEdges_affected_inv)
    show "\<forall>kv \<in> set []. ?P kv" by simp
  next
    fix e n
    assume e: "e \<in> set (outgoingOf ?g sid)"
      and n: "map_get (nodes ?g) (edge_to e) = Some n"
      and imp: "\<not> impactStrength e d < 0.05"
    from edge_target_node[OF outgoing_edges[OF e]] n obtain code where
      "edge_to e = ''country:'' @ code" "n = countryNode code" by auto
    with e imp show "?P (edge_to e, affectedEntry n e d 0 [sid])" by blast
  qed
  with assms show ?thesis unfolding bfs_fresh by blast
qed

lemma startsWith_append: "startsWith (p @ s) p"
  by (induction p) auto

lemma replace_prefix: "replace (p @ s) p r = r @ s"
proof (cases "p @ s")
  case Nil
  then show ?thesis by simp
next
  case (Cons c cs)
  have "startsWith (c # cs) p" using startsWith_append[of p s] Cons by simp
  moreover have "drop (length p) (c # cs) = s" using Cons by (metis append_eq_conv_conj)
  ultimately show ?thesis using Cons by simp
qed

lemmas builder_defs =
  freshGraph_def addCablesAsNodes_def addPipelinesAsNodes_def addPortsAsNodes_def
  addChokepointsAsNodes_def addCountriesAsNodes_def buildCableCountryEdges_def
  buildPipelineCountryEdges_def addPipelineCountryEdge_def emptyGraph_def
  collectCountries_def cableCountries_def pipelineCountries_def pipelineCountryCode_def
  opt_list_def set_add_def cableEdges_def addEdge_def map_push_def map_has_def map_get_def
  servesEdge_def landsAtEdge_def pipelineEdge_def cableNode_def pipelineNode_def portNode_def
  chokepointNode_def countryNode_def firstPointCoordinates_def

lemmas cascade_defs =
  calculateCascade_def buildDependencyGraph_def outgoingOf_def impactStrength_def or_zero_def
  affectedEntry_def categorizeImpact_def collectCountryImpacts_def countryImpact_def
  countryCodeOf_def metadataCode_def getCapacityForCountry_def sortBy_def compareImpacts_def
  severityOrder_def findRedundancies_def findRedundanciesWith_def exactArithmetic_def
  redundancyStep_def sharedCountries_def avgCapacity_def Let_def

lemma scenario_source:
  "map_get (nodes (fst (buildDependencyGraph (scenarioData cid cname a b) None)))
     (''cable:'' @ cid) = Some (cableNode (scenarioCable cid cname a b))"
  by (auto simp add: builder_defs buildDependencyGraph_def scenarioData_def scenarioCable_def
      Let_def)

lemma calculateCascade_None:
  "(fst (calculateCascade ds c sid d) = None)
   = (map_get (nodes (fst (buildDependencyGraph ds c))) sid = None)"
  by (auto simp add: calculateCascade_def simp del: bfs.simps split: prod.splits option.splits)

lemma cable_key_lookup:
  assumes "map_get (nodes (freshGraph ds)) (''cable:'' @ x) = Some n"
  shows "\<exists>c \<in> set (UNDERSEA_CABLES ds). cable_id c = x \<and> n = cableNode c"
  using nodesOnly_lookup[of ds "''cable:'' @ x" n] assms
  by (auto simp: freshGraph_nodes)

text \<open>
  C1. One cable serving country \<open>a\<close> with share 0.6 (not redundant) and country \<open>b\<close>
  with share 0.4 (redundant), disrupted at level 1.0: the two serves edges carry the
  impact strengths 0.6 and 0.2; the result has exactly two country impacts, \<open>a\<close> at
  level high and \<open>b\<close> at level low, since 0.2 is not above the threshold 0.2.
\<close>

theorem single_hop_cable_disruption:
  assumes "a \<noteq> b"
  shows "map (\<lambda>e. (edge_to e, impactStrength e 1))
           (outgoingOf (freshGraph (scenarioData cid cname a b)) (''cable:'' @ cid))
         = [(''country:'' @ a, 0.6), (''country:'' @ b, 0.2)]
       \<and> categorizeImpact 0.6 = High \<and> categorizeImpact 0.2 = Low
       \<and> (\<exists>r. fst (calculateCascade (scenarioData cid cname a b) None (''cable:'' @ cid) 1)
                = Some r
            \<and> map (\<lambda>x. (node_id (an_node x), an_impactLevel x)) (affectedNodes r)
                = [(''country:'' @ a, High), (''country:'' @ b, Low)]
            \<and> countriesAffected r =
                [\<lparr>ci_country = a, ci_countryName = countryName a, ci_impactLevel = High,
                  affectedCapacity = 0.6\<rparr>,
                 \<lparr>ci_country = b, ci_countryName = countryName b, ci_impactLevel = Low,
                  affectedCapacity = 0.4\<rparr>])"
proof (intro conjI)
  show "map (\<lambda>e. (edge_to e, impactStrength e 1))
           (outgoingOf (freshGraph (scenarioData cid cname a b)) (''cable:'' @ cid))
         = [(''country:'' @ a, 0.6), (''country:'' @ b, 0.2)]"
    using assms
    by (simp add: builder_defs scenarioData_def scenarioCable_def outgoingOf_def
        impactStrength_def or_zero_def)
  show "categorizeImpact 0.6 = High" by (simp add: categorizeImpact_def)
  show "categorizeImpact 0.2 = Low" by (simp add: categorizeImpact_def)
  show "\<exists>r. fst (calculateCascade (scenarioData cid cname a b) None (''cable:'' @ cid) 1)
                = Some r
            \<and> map (\<lambda>x. (node_id (an_node x), an_impactLevel x)) (affectedNodes r)
                = [(''country:'' @ a, High), (''country:'' @ b, Low)]
            \<and> countriesAffected r =
                [\<lparr>ci_country = a, ci_countryName = countryName a, ci_impactLevel = High,
                  affectedCapacity = 0.6\<rparr>,
                 \<lparr>ci_country = b, ci_countryName = countryName b, ci_impactLevel = Low,
                  affectedCapacity = 0.4\<rparr>]"
    using assms
    by (auto simp add: builder_defs cascade_defs scenarioData_def scenarioCable_def)
qed

theorem single_hop_cable_disruption_witness:
  "map (\<lambda>e. (edge_to e, impactStrength e 1))
     (outgoingOf (freshGraph (scenarioData ''c1'' ''Cable One'' ''A'' ''B'')) ''cable:c1'')
   = [(''country:A'', 0.6), (''country:B'', 0.2)]
   \<and> (\<exists>r. fst (calculateCascade (scenarioData ''c1'' ''Cable One'' ''A'' ''B'') None
               ''cable:c1'' 1) = Some r
        \<and> countriesAffected r =
            [\<lparr>ci_country = ''A'', ci_countryName = ''A'', ci_impactLevel = High,
              affectedCapacity = 0.6\<rparr>,
             \<lparr>ci_country = ''B'', ci_countryName = ''B'', ci_impactLevel = Low,
              affectedCapacity = 0.4\<rparr>])"
proof -
  have ne: "''A'' \<noteq> ''B''" by simp
  have nA: "countryName ''A'' = ''A''" by (simp add: countryName_def COUNTRY_NAMES_def)
  have nB: "countryName ''B'' = ''B''" by (simp add: countryName_def COUNTRY_NAMES_def)
  from single_hop_cable_disruption[OF ne, of "''c1''" "''Cable One''"] nA nB
  show ?thesis by auto
qed

subsection \<open>The threshold floor\<close>

lemma threshold_floor_finite:
  assumes "map_get (nodes (fst (buildDependencyGraph ds c))) sid = Some src"
  shows "\<exists>r. fst (calculateCascade ds c sid d) = Some r
          \<and> (\<forall>a \<in> set (affectedNodes r).
                \<exists>k e n dp pth.
                  e \<in> set (outgoingOf (fst (buildDependencyGraph ds c)) k)
                  \<and> map_get (nodes (fst (buildDependencyGraph ds c))) (edge_to e) = Some n
                  \<and> a = affectedEntry n e d dp pth
                  \<and> 0.05 \<le> impactStrength e d)
          \<and> (d = 0 \<longrightarrow> affectedNodes r = [])"
proof -
  let ?g = "fst (buildDependencyGraph ds c)"
  let ?res = "bfs ?g d [sid] [] [\<lparr>nodeId = sid, depth = 0, path = [sid]\<rparr>]"
  let ?P = "\<lambda>kv. \<exists>k e n dp pth. e \<in> set (outgoingOf ?g k)
                  \<and> map_get (nodes ?g) (edge_to e) = Some n
                  \<and> snd kv = affectedEntry n e d dp pth
                  \<and> 0.05 \<le> impactStrength e d"
  have floor: "\<forall>kv \<in> set (snd ?res). ?P kv"
  proof (rule bfs_affected_inv)
    show "\<forall>kv \<in> set []. ?P kv" by simp
  next
    fix k e n dp pth
    assume "e \<in> set (outgoingOf ?g k)" "map_get (nodes ?g) (edge_to e) = Some n"
      "\<not> impactStrength e d < 0.05"
    then show "?P (edge_to e, affectedEntry n e d dp pth)"
      by (intro exI[of _ k] exI[of _ e] exI[of _ n] exI[of _ dp] exI[of _ pth])
        (simp add: not_less)
  qed
  have zero: "snd ?res = []" if "d = 0"
  proof -
    have "\<forall>kv \<in> set (snd ?res). False"
    proof (rule bfs_affected_inv)
      show "\<forall>kv \<in> set []. False" by simp
    next
      fix e :: edge
      assume "\<not> impactStrength e d < 0.05"
      then show False using that by (simp add: impactStrength_zero)
    qed
    then show ?thesis by (cases "snd ?res") auto
  qed
  show ?thesis
    unfolding calculateCascade_found[OF assms]
    using floor zero by auto
qed

lemma impactStrengthAt_Num: "impactStrengthAt e (Num d) = Num (impactStrength e d)"
  by (simp add: impactStrengthAt_def impactStrength_def mult_ac)

lemma categorizeImpactAt_Num: "categorizeImpactAt (Num x) = categorizeImpact x"
  by (simp add: categorizeImpactAt_def categorizeImpact_def)

lemma affectedEntryAt_Num: "affectedEntryAt n e (Num d) dp pth = affectedEntry n e d dp pth"
  by (simp add: affectedEntryAt_def affectedEntry_def impactStrengthAt_Num
      categorizeImpactAt_Num)

lemma expandEdgesAt_Num:
  "expandEdgesAt g (Num d) dp pth es (v, a, q) = expandEdges g d dp pth es (v, a, q)"
  by (induction es arbitrary: v a q)
    (simp_all add: impactStrengthAt_Num affectedEntryAt_Num split: option.splits)

lemma bfsAt_Num: "bfsAt g (Num d) v a q = bfs g d v a q"
proof (induction g d v a q rule: bfs.induct)
  case (1 g d visited affected)
  show ?case by simp
next
  case (2 g d visited affected q queue)
  show ?case
  proof (cases "3 \<le> depth q")
    case True
    then show ?thesis using "2.IH"(1) by simp
  next
    case False
    obtain v' a' q' where ex:
      "expandEdges g d (depth q) (path q) (outgoingOf g (nodeId q)) (visited, affected, queue)
       = (v', a', q')"
      by (metis prod_cases3)
    from "2.IH"(2)[OF False ex[symmetric] refl]
    show ?thesis using False ex by (simp add: expandEdgesAt_Num)
  qed
qed

text \<open>On a finite level the cascade of this section is the cascade over the reals.\<close>

lemma calculateCascadeAt_Num:
  "calculateCascadeAt ds c sid (Num d) = calculateCascade ds c sid d"
  unfolding calculateCascadeAt_def calculateCascade_def bfsAt_Num by (rule refl)

lemmas level_defs =
  calculateCascadeAt_def impactStrengthAt_def affectedEntryAt_def categorizeImpactAt_def

text \<open>
  C2 (as the code has it). For a source that exists in the graph and a disruption level
  that is a finite number, the cascade succeeds, and every affected-node entry was
  recorded from an edge of the graph whose impact strength
  \<open>strength * disruptionLevel * (1 - redundancy)\<close> is at least 0.05; with
  \<open>disruptionLevel = 0\<close> the affected-node sequence is empty.
\<close>

theorem threshold_floor:
  assumes "map_get (nodes (fst (buildDependencyGraph ds c))) sid = Some src"
  shows "\<exists>r. fst (calculateCascadeAt ds c sid (Num d)) = Some r
          \<and> (\<forall>a \<in> set (affectedNodes r).
                \<exists>k e n dp pth.
                  e \<in> set (outgoingOf (fst (buildDependencyGraph ds c)) k)
                  \<and> map_get (nodes (fst (buildDependencyGraph ds c))) (edge_to e) = Some n
                  \<and> a = affectedEntryAt n e (Num d) dp pth
                  \<and> impactStrengthAt e (Num d) = Num (impactStrength e d)
                  \<and> js_atLeast (impactStrengthAt e (Num d)) 0.05)
          \<and> (d = 0 \<longrightarrow> affectedNodes r = [])"
  using threshold_floor_finite[OF assms, of d]
  unfolding calculateCascadeAt_Num affectedEntryAt_Num impactStrengthAt_Num
  by simp

text \<open>
  C2 (instance). The cable of the two-country scenario: at level 1.0 both entries come
  from edges with impact strength at least 0.05; at level 0 the cascade succeeds with no
  entry.
\<close>

theorem threshold_floor_witness:
  "(\<exists>r. fst (calculateCascadeAt (scenarioData ''c1'' ''Cable One'' ''A'' ''B'') None
            ''cable:c1'' (Num 1)) = Some r
      \<and> length (affectedNodes r) = 2
      \<and> list_all (\<lambda>a. \<exists>k e n dp pth.
            e \<in> set (outgoingOf (fst (buildDependencyGraph
                  (scenarioData ''c1'' ''Cable One'' ''A'' ''B'') None)) k)
            \<and> map_get (nodes (fst (buildDependencyGraph
                  (scenarioData ''c1'' ''Cable One'' ''A'' ''B'') None))) (edge_to e) = Some n
            \<and> a = affectedEntryAt n e (Num 1) dp pth
            \<and> js_atLeast (impactStrengthAt e (Num 1)) 0.05) (affectedNodes r))
   \<and> (\<exists>r. fst (calculateCascadeAt (scenarioData ''c1'' ''Cable One'' ''A'' ''B'') None
            ''cable:c1'' (Num 0)) = Some r
      \<and> affectedNodes r = [])"
proof -
  let ?D = "scenarioData ''c1'' ''Cable One'' ''A'' ''B''"
  have src: "map_get (nodes (fst (buildDependencyGraph ?D None))) ''cable:c1''
             = Some (cableNode (scenarioCable ''c1'' ''Cable One'' ''A'' ''B''))"
    using scenario_source[of "''c1''" "''Cable One''" "''A''" "''B''"] by simp
  have len: "length (affectedNodes (the (fst (calculateCascadeAt ?D None ''cable:c1'' (Num 1)))))
             = 2"
    by (simp add: builder_defs cascade_defs level_defs scenarioData_def scenarioCable_def)
  from threshold_floor[OF src, of 1] obtain r where
    r: "fst (calculateCascadeAt ?D None ''cable:c1'' (Num 1)) = Some r"
    and f: "\<forall>a \<in> set (affectedNodes r).
                \<exists>k e n dp pth.
                  e \<in> set (outgoingOf (fst (buildDependencyGraph ?D None)) k)
                  \<and> map_get (nodes (fst (buildDependencyGraph ?D None))) (edge_to e) = Some n
                  \<and> a = affectedEntryAt n e (Num 1) dp pth
                  \<and> impactStrengthAt e (Num 1) = Num (impactStrength e 1)
                  \<and> js_atLeast (impactStrengthAt e (Num 1)) 0.05"
    by (elim exE conjE)
  have "list_all (\<lambda>a. \<exists>k e n dp pth.
            e \<in> set (outgoingOf (fst (buildDependencyGraph ?D None)) k)
            \<and> map_get (nodes (fst (buildDependencyGraph ?D None))) (edge_to e) = Some n
            \<and> a = affectedEntryAt n e (Num 1) dp pth
            \<and> js_atLeast (impactStrengthAt e (Num 1)) 0.05) (affectedNodes r)"
    unfolding list_all_iff using f by blast
  with r len have one: "\<exists>r. fst (calculateCascadeAt ?D None ''cable:c1'' (Num 1)) = Some r
      \<and> length (affectedNodes r) = 2
      \<and> list_all (\<lambda>a. \<exists>k e n dp pth.
            e \<in> set (outgoingOf (fst (buildDependencyGraph ?D None)) k)
            \<and> map_get (nodes (fst (buildDependencyGraph ?D None))) (edge_to e) = Some n
            \<and> a = affectedEntryAt n e (Num 1) dp pth
            \<and> js_atLeast (impactStrengthAt e (Num 1)) 0.05) (affectedNodes r)"
    by (intro exI[of _ r] conjI) simp_all
  from threshold_floor[OF src, of 0]
  have zero: "\<exists>r. fst (calculateCascadeAt ?D None ''cable:c1'' (Num 0)) = Some r
                \<and> affectedNodes r = []"
    by auto
  from one zero show ?thesis by (rule conjI)
qed

text \<open>
  C2 (counterexample to the specification's wording). At the level NaN the impact
  strength of both serves edges of the two-country scenario is NaN, which is not below
  0.05, so both countries are recorded, though NaN is not at least 0.05 either. At the
  level infinity an edge of strength 0 has the impact strength NaN as well, and its
  country is recorded.
\<close>

theorem threshold_floor_counterexample:
  "map_option affectedNodes
     (fst (calculateCascadeAt (scenarioData ''c1'' ''Cable One'' ''A'' ''B'') None
             ''cable:c1'' NaN))
   = Some [affectedEntryAt (countryNode ''A'')
             (servesEdge ''cable:c1''
                \<lparr>cc_country = ''A'', capacityShare = 0.6, isRedundant = False\<rparr>)
             NaN 0 [''cable:c1''],
           affectedEntryAt (countryNode ''B'')
             (servesEdge ''cable:c1''
                \<lparr>cc_country = ''B'', capacityShare = 0.4, isRedundant = True\<rparr>)
             NaN 0 [''cable:c1'']]
   \<and> impactStrengthAt
       (servesEdge ''cable:c1'' \<lparr>cc_country = ''A'', capacityShare = 0.6, isRedundant = False\<rparr>)
       NaN = NaN
   \<and> impactStrengthAt
       (servesEdge ''cable:c1'' \<lparr>cc_country = ''B'', capacityShare = 0.4, isRedundant = True\<rparr>)
       NaN = NaN
   \<and> \<not> js_atLeast NaN 0.05
   \<and> map_option affectedNodes (fst (calculateCascadeAt zeroShareScenario None ''cable:z'' PosInf))
     = Some [affectedEntryAt (countryNode ''A'')
               (servesEdge ''cable:z''
                  \<lparr>cc_country = ''A'', capacityShare = 0, isRedundant = False\<rparr>)
               PosInf 0 [''cable:z'']]
   \<and> impactStrengthAt
       (servesEdge ''cable:z'' \<lparr>cc_country = ''A'', capacityShare = 0, isRedundant = False\<rparr>)
       PosInf = NaN"
proof (intro conjI)
  show "map_option affectedNodes
     (fst (calculateCascadeAt (scenarioData ''c1'' ''Cable One'' ''A'' ''B'') None
             ''cable:c1'' NaN))
   = Some [affectedEntryAt (countryNode ''A'')
             (servesEdge ''cable:c1''
                \<lparr>cc_country = ''A'', capacityShare = 0.6, isRedundant = False\<rparr>)
             NaN 0 [''cable:c1''],
           affectedEntryAt (countryNode ''B'')
             (servesEdge ''cable:c1''
                \<lparr>cc_country = ''B'', capacityShare = 0.4, isRedundant = True\<rparr>)
             NaN 0 [''cable:c1'']]"
    by (simp add: builder_defs cascade_defs level_defs scenarioData_def scenarioCable_def)
  show "impactStrengthAt
       (servesEdge ''cable:c1'' \<lparr>cc_country = ''A'', capacityShare = 0.6, isRedundant = False\<rparr>)
       NaN = NaN"
    by (simp add: impactStrengthAt_def)
  show "impactStrengthAt
       (servesEdge ''cable:c1'' \<lparr>cc_country = ''B'', capacityShare = 0.4, isRedundant = True\<rparr>)
       NaN = NaN"
    by (simp add: impactStrengthAt_def)
  show "\<not> js_atLeast NaN 0.05" by simp
  show "map_option affectedNodes
          (fst (calculateCascadeAt zeroShareScenario None ''cable:z'' PosInf))
     = Some [affectedEntryAt (countryNode ''A'')
               (servesEdge ''cable:z''
                  \<lparr>cc_country = ''A'', capacityShare = 0, isRedundant = False\<rparr>)
               PosInf 0 [''cable:z'']]"
    by (simp add: builder_defs cascade_defs level_defs zeroShareScenario_def servingCable_def)
  show "impactStrengthAt
       (servesEdge ''cable:z'' \<lparr>cc_country = ''A'', capacityShare = 0, isRedundant = False\<rparr>)
       PosInf = NaN"
    by (simp add: impactStrengthAt_def servesEdge_def or_zero_def)
qed

text \<open>
  C3. For a source that exists in the graph the cascade succeeds and every
  affected-node entry has \<open>pathLength\<close> at most 3.
\<close>

theorem depth_bound:
  assumes "map_get (nodes (fst (buildDependencyGraph ds c))) sid = Some src"
  shows "\<exists>r. fst (calculateCascade ds c sid d) = Some r
          \<and> (\<forall>a \<in> set (affectedNodes r). pathLength a \<le> 3)"
proof -
  let ?g = "fst (buildDependencyGraph ds c)"
  let ?res = "bfs ?g d [sid] [] [\<lparr>nodeId = sid, depth = 0, path = [sid]\<rparr>]"
  have "\<forall>kv \<in> set (snd ?res). pathLength (snd kv) \<le> 3"
  proof (rule bfs_affected_inv)
    show "\<forall>kv \<in> set []. pathLength (snd kv) \<le> 3" by simp
  next
    fix e n and dp :: nat and pth
    assume "dp < 3"
    then show "pathLength (snd (edge_to e, affectedEntry n e d dp pth)) \<le> 3"
      by (simp add: affectedEntry_def)
  qed
  then show ?thesis
    unfolding calculateCascade_found[OF assms] by auto
qed

text \<open>
  C3 (instance). The cable of the two-country scenario at level 1.0: both entries have
  path length 1.
\<close>

theorem depth_bound_witness:
  "\<exists>r. fst (calculateCascade (scenarioData ''c1'' ''Cable One'' ''A'' ''B'') None
            ''cable:c1'' 1) = Some r
      \<and> map pathLength (affectedNodes r) = [1, 1]
      \<and> list_all (\<lambda>a. pathLength a \<le> 3) (affectedNodes r)"
proof -
  let ?D = "scenarioData ''c1'' ''Cable One'' ''A'' ''B''"
  have src: "map_get (nodes (fst (buildDependencyGraph ?D None))) ''cable:c1''
             = Some (cableNode (scenarioCable ''c1'' ''Cable One'' ''A'' ''B''))"
    using scenario_source[of "''c1''" "''Cable One''" "''A''" "''B''"] by simp
  from depth_bound[OF src, of 1] obtain r where
    r: "fst (calculateCascade ?D None ''cable:c1'' 1) = Some r"
    and b: "\<forall>a \<in> set (affectedNodes r). pathLength a \<le> 3" by blast
  have "map pathLength (affectedNodes (the (fst (calculateCascade ?D None ''cable:c1'' 1))))
        = [1, 1]"
    by (simp add: builder_defs cascade_defs scenarioData_def scenarioCable_def)
  with r b show ?thesis by (auto simp: list_all_iff)
qed



text \<open>
  C5. With a graph in the cache, \<open>buildDependencyGraph\<close> returns that graph, whatever
  it is, and leaves the cache as it is: nothing is rebuilt. With an empty cache it
  builds the graph from the reference data and stores it. So a second call without an
  intervening \<open>clearGraphCache\<close> returns the graph of the first, from every state of
  the cache. \<open>clearGraphCache\<close> empties the cache, and the next call rebuilds; in every
  state the module can reach, the rebuilt graph has the numbers of nodes and edges of
  the graph returned before the invalidation.
\<close>

theorem buildDependencyGraph_cached:
  "buildDependencyGraph ds (Some g) = (g, Some g)
   \<and> buildDependencyGraph ds None = (freshGraph ds, Some (freshGraph ds))
   \<and> snd (buildDependencyGraph ds c) = Some (fst (buildDependencyGraph ds c))
   \<and> buildDependencyGraph ds (snd (buildDependencyGraph ds c)) = buildDependencyGraph ds c
   \<and> clearGraphCache c = None
   \<and> (reachable ds c \<longrightarrow>
        fst (buildDependencyGraph ds (clearGraphCache (snd (buildDependencyGraph ds c))))
          = fst (buildDependencyGraph ds c)
        \<and> length (nodes (fst (buildDependencyGraph ds
              (clearGraphCache (snd (buildDependencyGraph ds c))))))
            = length (nodes (fst (buildDependencyGraph ds c)))
        \<and> length (edges (fst (buildDependencyGraph ds
              (clearGraphCache (snd (buildDependencyGraph ds c))))))
            = length (edges (fst (buildDependencyGraph ds c))))"
proof (intro conjI impI)
  show hit: "buildDependencyGraph ds (Some g) = (g, Some g)"
    by (simp add: buildDependencyGraph_def)
  show miss: "buildDependencyGraph ds None = (freshGraph ds, Some (freshGraph ds))"
    by (simp add: buildDependencyGraph_def Let_def)
  show stored: "snd (buildDependencyGraph ds c) = Some (fst (buildDependencyGraph ds c))"
    by (cases c) (simp_all add: buildDependencyGraph_def Let_def)
  show "buildDependencyGraph ds (snd (buildDependencyGraph ds c)) = buildDependencyGraph ds c"
    by (cases c) (simp_all add: buildDependencyGraph_def Let_def)
  show "clearGraphCache c = None" by (simp add: clearGraphCache_def)
next
  assume r: "reachable ds c"
  have rebuilt: "fst (buildDependencyGraph ds (clearGraphCache (snd (buildDependencyGraph ds c))))
        = fst (buildDependencyGraph ds c)"
    using reachable_cases[OF r]
    by (auto simp: buildDependencyGraph_def clearGraphCache_def Let_def)
  show "fst (buildDependencyGraph ds (clearGraphCache (snd (buildDependencyGraph ds c))))
        = fst (buildDependencyGraph ds c)" by (rule rebuilt)
  show "length (nodes (fst (buildDependencyGraph ds
              (clearGraphCache (snd (buildDependencyGraph ds c))))))
            = length (nodes (fst (buildDependencyGraph ds c)))"
    by (simp only: rebuilt)
  show "length (edges (fst (buildDependencyGraph ds
              (clearGraphCache (snd (buildDependencyGraph ds c))))))
            = length (edges (fst (buildDependencyGraph ds c)))"
    by (simp only: rebuilt)
qed

text \<open>
  C5 (instance). With the two-country scenario as reference data: a call on a cache that
  holds the empty graph returns the empty graph, not the graph of three nodes that a
  rebuild gives; from the initial state the graph has three nodes and two edges, before
  and after the invalidation.
\<close>

theorem buildDependencyGraph_cached_witness:
  "buildDependencyGraph (scenarioData ''c1'' ''Cable One'' ''A'' ''B'') (Some emptyGraph)
     = (emptyGraph, Some emptyGraph)
   \<and> length (nodes emptyGraph) = 0
   \<and> length (nodes (fst (buildDependencyGraph (scenarioData ''c1'' ''Cable One'' ''A'' ''B'')
        None))) = 3
   \<and> buildDependencyGraph (scenarioData ''c1'' ''Cable One'' ''A'' ''B'')
       (snd (buildDependencyGraph (scenarioData ''c1'' ''Cable One'' ''A'' ''B'') None))
     = buildDependencyGraph (scenarioData ''c1'' ''Cable One'' ''A'' ''B'') None
   \<and> length (nodes (fst (buildDependencyGraph (scenarioData ''c1'' ''Cable One'' ''A'' ''B'')
        (clearGraphCache
          (snd (buildDependencyGraph (scenarioData ''c1'' ''Cable One'' ''A'' ''B'') None))))))
     = 3
   \<and> length (edges (fst (buildDependencyGraph (scenarioData ''c1'' ''Cable One'' ''A'' ''B'')
        (clearGraphCache
          (snd (buildDependencyGraph (scenarioData ''c1'' ''Cable One'' ''A'' ''B'') None))))))
     = 2"
proof -
  let ?D = "scenarioData ''c1'' ''Cable One'' ''A'' ''B''"
  have n: "length (nodes (fst (buildDependencyGraph ?D None))) = 3"
    by (simp add: builder_defs buildDependencyGraph_def scenarioData_def scenarioCable_def
        Let_def)
  have e: "length (edges (fst (buildDependencyGraph ?D None))) = 2"
    by (simp add: builder_defs buildDependencyGraph_def scenarioData_def scenarioCable_def
        Let_def)
  have z: "length (nodes emptyGraph) = 0" by (simp add: emptyGraph_def)
  note t = buildDependencyGraph_cached[of ?D emptyGraph None]
  from t have h: "buildDependencyGraph ?D (Some emptyGraph) = (emptyGraph, Some emptyGraph)"
    by (rule conjunct1)
  from t have a: "buildDependencyGraph ?D (snd (buildDependencyGraph ?D None))
                  = buildDependencyGraph ?D None" by blast
  from t reachable.initial[of ?D]
  have b: "length (nodes (fst (buildDependencyGraph ?D
                    (clearGraphCache (snd (buildDependencyGraph ?D None))))))
                  = length (nodes (fst (buildDependencyGraph ?D None)))" by blast
  from t reachable.initial[of ?D]
  have c: "length (edges (fst (buildDependencyGraph ?D
                    (clearGraphCache (snd (buildDependencyGraph ?D None))))))
                  = length (edges (fst (buildDependencyGraph ?D None)))" by blast
  from h z n a b[unfolded n] c[unfolded e] show ?thesis by (intro conjI)
qed

text \<open>
  C4. The cascade returns the not-found value exactly when the source id is not a key of
  the node map of the current graph; the model is a total function, so there is no other
  outcome. In a graph built from reference data without a cable named
  \<open>does-not-exist\<close>, the id \<open>cable:does-not-exist\<close> is not found.
\<close>

theorem not_found_iff:
  "(fst (calculateCascade ds c sid d) = None)
     = (\<not> map_has (nodes (fst (buildDependencyGraph ds c))) sid)
   \<and> (reachable ds c \<and> (\<forall>cb \<in> set (UNDERSEA_CABLES ds). cable_id cb \<noteq> ''does-not-exist'')
        \<longrightarrow> fst (calculateCascade ds c ''cable:does-not-exist'' d) = None)"
proof (intro conjI impI)
  show "(fst (calculateCascade ds c sid d) = None)
     = (\<not> map_has (nodes (fst (buildDependencyGraph ds c))) sid)"
    by (simp add: calculateCascade_None map_has_def)
next
  assume a: "reachable ds c \<and> (\<forall>cb \<in> set (UNDERSEA_CABLES ds). cable_id cb \<noteq> ''does-not-exist'')"
  then have g: "fst (buildDependencyGraph ds c) = freshGraph ds" by (simp add: reachable_graph)
  have "map_get (nodes (freshGraph ds)) (''cable:'' @ ''does-not-exist'') = None"
  proof (cases "map_get (nodes (freshGraph ds)) (''cable:'' @ ''does-not-exist'')")
    case None
    then show ?thesis .
  next
    case (Some n)
    from cable_key_lookup[OF Some] a show ?thesis by blast
  qed
  then show "fst (calculateCascade ds c ''cable:does-not-exist'' d) = None"
    by (simp add: calculateCascade_None g)
qed

theorem not_found_iff_witness:
  "fst (calculateCascade (scenarioData ''c1'' ''Cable One'' ''A'' ''B'') None
          ''cable:does-not-exist'' 1) = None
   \<and> fst (calculateCascade (scenarioData ''c1'' ''Cable One'' ''A'' ''B'') None
          ''cable:c1'' 1) \<noteq> None"
proof -
  let ?D = "scenarioData ''c1'' ''Cable One'' ''A'' ''B''"
  have ids: "\<forall>cb \<in> set (UNDERSEA_CABLES ?D). cable_id cb \<noteq> ''does-not-exist''"
    by (simp add: scenarioData_def scenarioCable_def)
  have has: "map_has (nodes (fst (buildDependencyGraph ?D None))) ''cable:c1''"
    using scenario_source[of "''c1''" "''Cable One''" "''A''" "''B''"] by (simp add: map_has_def)
  from not_found_iff[of ?D None "''cable:c1''" 1] reachable.initial[of ?D] ids has
  show ?thesis by blast
qed

text \<open>
  C9. In the graph that \<open>buildDependencyGraph\<close> builds, the node map holds a country
  node for every country entry of every pipeline, under the aliased code, so the guard of
  \<open>buildPipelineCountryEdges\<close> never fails: the edge sequence is the cable edges
  followed by one serves edge with strength 0.2 and redundancy 0.3 for every pipeline
  country entry.
\<close>

theorem pipeline_skip_unreachable:
  assumes "reachable ds c"
  shows "(\<forall>p \<in> set (PIPELINES ds). \<forall>country \<in> set (opt_list (pipeline_countries p)).
            map_has (nodes (fst (buildDependencyGraph ds c)))
              (''country:'' @ pipelineCountryCode country))
       \<and> edges (fst (buildDependencyGraph ds c))
           = concat (map cableEdges (UNDERSEA_CABLES ds))
             @ concat (map (\<lambda>p. map (pipelineEdge (''pipeline:'' @ pipeline_id p))
                                   (opt_list (pipeline_countries p))) (PIPELINES ds))
       \<and> (\<forall>pid country. edge_type (pipelineEdge pid country) = Serves
            \<and> strength (pipelineEdge pid country) = 0.2
            \<and> redundancy (pipelineEdge pid country) = 0.3)"
proof (intro conjI ballI allI)
  have g: "fst (buildDependencyGraph ds c) = freshGraph ds"
    using assms by (rule reachable_graph)
  {
    fix p country
    assume "p \<in> set (PIPELINES ds)" "country \<in> set (opt_list (pipeline_countries p))"
    from pipeline_guard[OF this]
    show "map_has (nodes (fst (buildDependencyGraph ds c)))
            (''country:'' @ pipelineCountryCode country)"
      by (simp only: g freshGraph_nodes)
  }
  have "map (\<lambda>p. map (pipelineEdge (''pipeline:'' @ pipeline_id p))
                   (opt_list (pipeline_countries p))) (PIPELINES ds)
        = map pipelineEdges (PIPELINES ds)"
    by (simp add: pipelineEdges_def)
  then show "edges (fst (buildDependencyGraph ds c))
           = concat (map cableEdges (UNDERSEA_CABLES ds))
             @ concat (map (\<lambda>p. map (pipelineEdge (''pipeline:'' @ pipeline_id p))
                                   (opt_list (pipeline_countries p))) (PIPELINES ds))"
    by (simp only: g freshGraph_edges)
  fix pid country
  show "edge_type (pipelineEdge pid country) = Serves"
    "strength (pipelineEdge pid country) = 0.2"
    "redundancy (pipelineEdge pid country) = 0.3"
    by (simp_all add: pipelineEdge_def)
qed

theorem pipeline_skip_unreachable_witness:
  "map (\<lambda>e. (edge_from e, edge_to e, strength e, redundancy e))
     (edges (fst (buildDependencyGraph pipelineScenario None)))
   = [(''pipeline:p1'', ''country:US'', 0.2, 0.3),
      (''pipeline:p1'', ''country:CA'', 0.2, 0.3),
      (''pipeline:p1'', ''country:MX'', 0.2, 0.3)]
   \<and> map_has (nodes (fst (buildDependencyGraph pipelineScenario None))) ''country:US''"
proof -
  have p: "PIPELINES pipelineScenario = [scenarioPipeline]"
    and c: "UNDERSEA_CABLES pipelineScenario = []"
    and cs: "opt_list (pipeline_countries scenarioPipeline) = [''USA'', ''Canada'', ''MX'']"
    and i: "pipeline_id scenarioPipeline = ''p1''"
    by (simp_all add: pipelineScenario_def scenarioPipeline_def opt_list_def)
  from pipeline_skip_unreachable[OF reachable.initial, of pipelineScenario]
  show ?thesis
    by (simp add: p c cs i pipelineEdge_def pipelineCountryCode_def)
qed

text \<open>
  C10. In the graph that \<open>buildDependencyGraph\<close> builds, every edge ends in a country
  node and starts at a cable or pipeline node, and a country node has no outgoing edge;
  so every affected node of a cascade is a country node recorded at path length 1, with
  the dependency chain made of the source and the country.
\<close>

theorem single_hop_only:
  assumes "reachable ds c"
  shows "(\<forall>e \<in> set (edges (fst (buildDependencyGraph ds c))).
            (\<exists>n. map_get (nodes (fst (buildDependencyGraph ds c))) (edge_to e) = Some n
                  \<and> node_type n = Country)
          \<and> (\<exists>n. map_get (nodes (fst (buildDependencyGraph ds c))) (edge_from e) = Some n
                  \<and> (node_type n = Cable \<or> node_type n = Pipeline)))
       \<and> (\<forall>k n. map_get (nodes (fst (buildDependencyGraph ds c))) k = Some n
                  \<and> node_type n = Country
            \<longrightarrow> outgoingOf (fst (buildDependencyGraph ds c)) k = []
                \<and> filter (\<lambda>e. edge_from e = k) (edges (fst (buildDependencyGraph ds c))) = [])
       \<and> (\<forall>r. fst (calculateCascade ds c sid d) = Some r
            \<longrightarrow> (\<forall>a \<in> set (affectedNodes r).
                   node_type (an_node a) = Country \<and> pathLength a = 1
                   \<and> length (dependencyChain a) = 2
                   \<and> dependencyChain a = [sid, node_id (an_node a)]))"
proof (intro conjI ballI allI impI)
  have g: "fst (buildDependencyGraph ds c) = freshGraph ds"
    using assms by (rule reachable_graph)
  {
    fix e assume "e \<in> set (edges (fst (buildDependencyGraph ds c)))"
    then have e: "e \<in> set (edges (freshGraph ds))" by (simp add: g)
    from edge_target_node[OF e]
    show "\<exists>n. map_get (nodes (fst (buildDependencyGraph ds c))) (edge_to e) = Some n
               \<and> node_type n = Country"
      by (auto simp: g countryNode_def)
    from edge_source_node[OF e]
    show "\<exists>n. map_get (nodes (fst (buildDependencyGraph ds c))) (edge_from e) = Some n
               \<and> (node_type n = Cable \<or> node_type n = Pipeline)"
      by (simp add: g)
  }
  {
    fix k n
    assume "map_get (nodes (fst (buildDependencyGraph ds c))) k = Some n \<and> node_type n = Country"
    then have "map_get (nodes (freshGraph ds)) k = Some n" "node_type n = Country"
      by (simp_all add: g)
    from country_node_key[OF this] obtain code where k: "k = ''country:'' @ code" by blast
    show "outgoingOf (fst (buildDependencyGraph ds c)) k = []"
      unfolding g k by (rule country_key_no_outgoing)
    then show "filter (\<lambda>e. edge_from e = k) (edges (fst (buildDependencyGraph ds c))) = []"
      by (simp add: g freshGraph_outgoing)
  }
  {
    fix r a
    assume r: "fst (calculateCascade ds c sid d) = Some r" and a: "a \<in> set (affectedNodes r)"
    from r obtain src where
      src: "map_get (nodes (fst (buildDependencyGraph ds c))) sid = Some src"
      using calculateCascade_None[of ds c sid d] by (cases "map_get (nodes (fst (buildDependencyGraph ds c))) sid") auto
    from r a calculateCascade_found[OF src, of d] obtain kv where
      kv: "kv \<in> set (snd (bfs (freshGraph ds) d [sid] []
                             [\<lparr>nodeId = sid, depth = 0, path = [sid]\<rparr>]))"
      and akv: "a = snd kv"
      by (auto simp: g)
    from fresh_affected[OF kv] akv obtain code e where
      e: "edge_to e = ''country:'' @ code"
      and ae: "a = affectedEntry (countryNode code) e d 0 [sid]" by auto
    show "node_type (an_node a) = Country" by (simp add: ae affectedEntry_def countryNode_def)
    show "pathLength a = 1" by (simp add: ae affectedEntry_def)
    show "length (dependencyChain a) = 2" by (simp add: ae affectedEntry_def)
    show "dependencyChain a = [sid, node_id (an_node a)]"
      by (simp add: ae e affectedEntry_def countryNode_def)
  }
qed

theorem single_hop_only_witness:
  "\<exists>r. fst (calculateCascade (scenarioData ''c1'' ''Cable One'' ''A'' ''B'') None
            ''cable:c1'' 1) = Some r
      \<and> map (\<lambda>a. (node_type (an_node a), pathLength a, dependencyChain a)) (affectedNodes r)
          = [(Country, 1, [''cable:c1'', ''country:A'']),
             (Country, 1, [''cable:c1'', ''country:B''])]
      \<and> list_all (\<lambda>a. node_type (an_node a) = Country \<and> pathLength a = 1
                      \<and> length (dependencyChain a) = 2) (affectedNodes r)"
proof -
  let ?D = "scenarioData ''c1'' ''Cable One'' ''A'' ''B''"
  have ev: "\<exists>r. fst (calculateCascade ?D None ''cable:c1'' 1) = Some r
      \<and> map (\<lambda>a. (node_type (an_node a), pathLength a, dependencyChain a)) (affectedNodes r)
          = [(Country, 1, [''cable:c1'', ''country:A'']),
             (Country, 1, [''cable:c1'', ''country:B''])]"
    by (simp add: builder_defs cascade_defs scenarioData_def scenarioCable_def)
  then obtain r where r: "fst (calculateCascade ?D None ''cable:c1'' 1) = Some r"
    and m: "map (\<lambda>a. (node_type (an_node a), pathLength a, dependencyChain a)) (affectedNodes r)
          = [(Country, 1, [''cable:c1'', ''country:A'']),
             (Country, 1, [''cable:c1'', ''country:B''])]" by (elim exE conjE)
  from single_hop_only[OF reachable.initial, of ?D "''cable:c1''" 1] r
  have "\<forall>a \<in> set (affectedNodes r). node_type (an_node a) = Country \<and> pathLength a = 1
          \<and> length (dependencyChain a) = 2" by blast
  then have "list_all (\<lambda>a. node_type (an_node a) = Country \<and> pathLength a = 1
                      \<and> length (dependencyChain a) = 2) (affectedNodes r)"
    by (simp add: list_all_iff)
  with r m show ?thesis by (intro exI[of _ r] conjI)
qed

subsection \<open>The redundancy analysis\<close>

lemma startsWith_iff: "startsWith s p = (\<exists>r. s = p @ r)"
proof (induction s p rule: startsWith.induct)
  case (1 s)
  then show ?case by simp
next
  case (2 p ps)
  then show ?case by simp
next
  case (3 c cs p ps)
  then show ?case by auto
qed

lemma foldl_set_add_set: "set (foldl (\<lambda>s c. set_add c s) s0 xs) = set s0 \<union> set xs"
  by (induction xs arbitrary: s0) (auto simp: set_add_def)

lemma foldl_num_add:
  "foldl (\<lambda>sum c. num_add ar sum (capacityShare c)) acc xs
   = foldl (num_add ar) acc (map capacityShare xs)"
  by (induction xs arbitrary: acc) simp_all

lemma avgCapacity_mean: "avgCapacity ar xs = meanCapacityShare ar xs"
  by (simp add: avgCapacity_def meanCapacityShare_def foldl_num_add)

lemma foldl_plus_sum_list: "foldl (+) acc (xs :: real list) = acc + sum_list xs"
  by (induction xs arbitrary: acc) simp_all

lemma exact_mean:
  "meanCapacityShare exactArithmetic xs = sum_list (map capacityShare xs) / real (length xs)"
  by (simp add: meanCapacityShare_def exactArithmetic_def foldl_plus_sum_list)

lemma sharedCountries_overlapping:
  assumes "set sourceCountries = servedCountries src"
  shows "sharedCountries sourceCountries c = overlappingEntries src c"
  using assms by (simp add: sharedCountries_def overlappingEntries_def)

lemma overlapping_nonempty:
  "(overlappingEntries src c \<noteq> []) = (servedCountries c \<inter> servedCountries src \<noteq> {})"
  by (auto simp: overlappingEntries_def servedCountries_def filter_empty_conv)

lemma redundancyStep_append:
  assumes "set sourceCountries = servedCountries src"
  shows "redundancyStep ar cableId sourceCountries acc c =
         acc @ (if cable_id c \<noteq> cableId \<and> servedCountries c \<inter> servedCountries src \<noteq> {}
                then [\<lparr>rc_id = cable_id c, rc_name = cable_name c,
                       rc_capacityShare = meanCapacityShare ar (overlappingEntries src c)\<rparr>]
                else [])"
  using overlapping_nonempty[of src c]
  by (simp add: redundancyStep_def Let_def sharedCountries_overlapping[OF assms] avgCapacity_mean)

lemma foldl_append_step:
  assumes "\<And>acc c. f acc c = acc @ h c"
  shows "foldl f acc cs = acc @ concat (map h cs)"
  by (induction cs arbitrary: acc) (simp_all add: assms)

lemma concat_map_if: "concat (map (\<lambda>c. if P c then [g c] else []) cs) = map g (filter P cs)"
  by (induction cs) simp_all

lemma foldl_redundancyStep:
  assumes "set sourceCountries = servedCountries src"
  shows "foldl (redundancyStep ar cableId sourceCountries) acc cs =
         acc @ map (\<lambda>c. \<lparr>rc_id = cable_id c, rc_name = cable_name c,
                          rc_capacityShare = meanCapacityShare ar (overlappingEntries src c)\<rparr>)
                 (filter (\<lambda>c. cable_id c \<noteq> cableId
                             \<and> servedCountries c \<inter> servedCountries src \<noteq> {}) cs)"
proof -
  have "foldl (redundancyStep ar cableId sourceCountries) acc cs =
        acc @ concat (map (\<lambda>c. if cable_id c \<noteq> cableId
                                    \<and> servedCountries c \<inter> servedCountries src \<noteq> {}
                then [\<lparr>rc_id = cable_id c, rc_name = cable_name c,
                       rc_capacityShare = meanCapacityShare ar (overlappingEntries src c)\<rparr>]
                else []) cs)"
    by (rule foldl_append_step) (rule redundancyStep_append[OF assms])
  then show ?thesis by (simp only: concat_map_if)
qed

lemma find_Some_set: "find P xs = Some x \<Longrightarrow> x \<in> set xs \<and> P x"
  by (induction xs) (auto split: if_splits)

lemma find_cable_key:
  "find (\<lambda>c. ''cable:'' @ cable_id c = ''cable:'' @ x) cs = find (\<lambda>c. cable_id c = x) cs"
  by (induction cs) simp_all

lemma find_cable_id: "find (\<lambda>c. cable_id c = x) cs = Some src \<Longrightarrow> cable_id src = x"
  by (induction cs) (auto split: if_splits)

lemma findRedundancies_cable:
  "findRedundanciesWith ar ds (''cable:'' @ x) =
     (case find (\<lambda>c. cable_id c = x) (UNDERSEA_CABLES ds) of
        None \<Rightarrow> []
      | Some src \<Rightarrow> take 5 (redundancyCandidates ar ds src))"
proof (cases "find (\<lambda>c. cable_id c = x) (UNDERSEA_CABLES ds)")
  case None
  then show ?thesis
    by (simp add: findRedundanciesWith_def startsWith_append replace_prefix)
next
  case (Some src)
  have s: "set (foldl (\<lambda>s c. set_add c s) [] (map cc_country (opt_list (countriesServed src))))
           = servedCountries src"
    by (simp add: foldl_set_add_set servedCountries_def)
  show ?thesis
    using Some find_cable_id[OF Some]
    by (simp add: findRedundanciesWith_def startsWith_append replace_prefix Let_def
        foldl_redundancyStep[OF s] redundancyCandidates_def)
qed

text \<open>
  C7. In every arithmetic, the one of doubles included, the redundancy analysis returns
  the empty sequence for a source id without the cable prefix and for one whose cable is
  not in the dataset. For a cable of the dataset it returns the first five, in dataset
  order, of the candidates made from every cable with another id whose served countries
  overlap those of the source cable, each with the mean capacity share of its
  overlapping entries as that arithmetic computes it (the shares added from the left,
  the sum divided by their number); the source cable is never among them. In exact
  arithmetic, which is what \<open>findRedundancies\<close> takes, that mean is the sum of the shares
  over their number.
\<close>

theorem findRedundancies_candidates:
  "(\<not> startsWith sid ''cable:'' \<longrightarrow> findRedundanciesWith ar ds sid = [])
   \<and> ((\<forall>c \<in> set (UNDERSEA_CABLES ds). ''cable:'' @ cable_id c \<noteq> sid)
        \<longrightarrow> findRedundanciesWith ar ds sid = [])
   \<and> (\<forall>src. find (\<lambda>c. ''cable:'' @ cable_id c = sid) (UNDERSEA_CABLES ds) = Some src
        \<longrightarrow> findRedundanciesWith ar ds sid = take 5 (redundancyCandidates ar ds src))
   \<and> length (findRedundanciesWith ar ds sid) \<le> 5
   \<and> (\<forall>r \<in> set (findRedundanciesWith ar ds sid). ''cable:'' @ rc_id r \<noteq> sid)
   \<and> findRedundancies ds sid = findRedundanciesWith exactArithmetic ds sid
   \<and> meanCapacityShare exactArithmetic xs
       = sum_list (map capacityShare xs) / real (length xs)"
proof -
  have main: "(\<not> startsWith sid ''cable:'' \<longrightarrow> findRedundanciesWith ar ds sid = [])
   \<and> ((\<forall>c \<in> set (UNDERSEA_CABLES ds). ''cable:'' @ cable_id c \<noteq> sid)
        \<longrightarrow> findRedundanciesWith ar ds sid = [])
   \<and> (\<forall>src. find (\<lambda>c. ''cable:'' @ cable_id c = sid) (UNDERSEA_CABLES ds) = Some src
        \<longrightarrow> findRedundanciesWith ar ds sid = take 5 (redundancyCandidates ar ds src))
   \<and> length (findRedundanciesWith ar ds sid) \<le> 5
   \<and> (\<forall>r \<in> set (findRedundanciesWith ar ds sid). ''cable:'' @ rc_id r \<noteq> sid)"
  proof (cases "startsWith sid ''cable:''")
    case False
    then have e: "findRedundanciesWith ar ds sid = []" by (simp add: findRedundanciesWith_def)
    have "find (\<lambda>c. ''cable:'' @ cable_id c = sid) (UNDERSEA_CABLES ds) = None"
      using False by (auto simp: find_None_iff startsWith_iff)
    with e show ?thesis by simp
  next
    case True
    then obtain x where sid: "sid = ''cable:'' @ x" by (auto simp: startsWith_iff)
    show ?thesis
    proof (cases "find (\<lambda>c. cable_id c = x) (UNDERSEA_CABLES ds)")
      case None
      then have "findRedundanciesWith ar ds sid = []"
        using findRedundancies_cable[of ar ds x] unfolding sid by simp
      moreover have "find (\<lambda>c. ''cable:'' @ cable_id c = sid) (UNDERSEA_CABLES ds) = None"
        using None unfolding sid find_cable_key .
      ultimately show ?thesis by simp
    next
      case (Some src)
      have f: "find (\<lambda>c. ''cable:'' @ cable_id c = sid) (UNDERSEA_CABLES ds) = Some src"
        using Some unfolding sid find_cable_key .
      have r: "findRedundanciesWith ar ds sid = take 5 (redundancyCandidates ar ds src)"
        using Some findRedundancies_cable[of ar ds x] unfolding sid by simp
      have x: "cable_id src = x" by (rule find_cable_id[OF Some])
      have ex: "\<exists>c \<in> set (UNDERSEA_CABLES ds). ''cable:'' @ cable_id c = sid"
        using find_Some_set[OF f] by blast
      have other: "''cable:'' @ rc_id r \<noteq> sid"
        if "r \<in> set (take 5 (redundancyCandidates ar ds src))" for r
      proof -
        from that have "r \<in> set (redundancyCandidates ar ds src)" by (rule in_set_takeD)
        then show ?thesis by (auto simp: redundancyCandidates_def x sid)
      qed
      show ?thesis using f r ex other by auto
    qed
  qed
  have "findRedundancies ds sid = findRedundanciesWith exactArithmetic ds sid"
    by (simp add: findRedundancies_def)
  with main exact_mean[of xs] show ?thesis by blast
qed

text \<open>
  C7 (instance). From cable c0, serving A and B: c1 overlaps in both countries with mean
  (0.25 + 0.5) / 2, c2 does not overlap, c6 overlaps in A only, c7 is the sixth candidate
  and is cut off. The shares are binary fractions, so the values are those of the
  double operations as well.
\<close>

theorem findRedundancies_candidates_witness:
  "map (\<lambda>r. (rc_id r, rc_capacityShare r)) (findRedundancies redundancyScenario ''cable:c0'')
     = [(''c1'', 0.375), (''c3'', 0.5), (''c4'', 0.125), (''c5'', 0.75), (''c6'', 1)]
   \<and> findRedundanciesWith exactArithmetic redundancyScenario ''cable:c0''
     = take 5 (redundancyCandidates exactArithmetic redundancyScenario
                 (servingCable ''c0'' [(''A'', 0.5), (''B'', 0.5)]))
   \<and> findRedundanciesWith exactArithmetic redundancyScenario ''port:rotterdam'' = []
   \<and> findRedundanciesWith exactArithmetic redundancyScenario ''cable:c9'' = []"
proof -
  have f: "find (\<lambda>c. ''cable:'' @ cable_id c = ''cable:c0'') (UNDERSEA_CABLES redundancyScenario)
           = Some (servingCable ''c0'' [(''A'', 0.5), (''B'', 0.5)])"
    by (simp add: redundancyScenario_def servingCable_def)
  have p: "\<not> startsWith ''port:rotterdam'' ''cable:''" by simp
  have n: "\<forall>c \<in> set (UNDERSEA_CABLES redundancyScenario). ''cable:'' @ cable_id c \<noteq> ''cable:c9''"
    by (simp add: redundancyScenario_def servingCable_def)
  have v: "map (\<lambda>r. (rc_id r, rc_capacityShare r))
             (findRedundancies redundancyScenario ''cable:c0'')
           = [(''c1'', 0.375), (''c3'', 0.5), (''c4'', 0.125), (''c5'', 0.75), (''c6'', 1)]"
    by (simp add: findRedundancies_def findRedundanciesWith_def exactArithmetic_def
        redundancyScenario_def servingCable_def redundancyStep_def sharedCountries_def
        avgCapacity_def set_add_def opt_list_def Let_def)
  from findRedundancies_candidates[of "''cable:c0''" exactArithmetic redundancyScenario] f
  have a: "findRedundanciesWith exactArithmetic redundancyScenario ''cable:c0''
     = take 5 (redundancyCandidates exactArithmetic redundancyScenario
                 (servingCable ''c0'' [(''A'', 0.5), (''B'', 0.5)]))" by blast
  from findRedundancies_candidates[of "''port:rotterdam''" exactArithmetic redundancyScenario] p
  have b: "findRedundanciesWith exactArithmetic redundancyScenario ''port:rotterdam'' = []"
    by blast
  from findRedundancies_candidates[of "''cable:c9''" exactArithmetic redundancyScenario] n
  have c: "findRedundanciesWith exactArithmetic redundancyScenario ''cable:c9'' = []" by blast
  from v a b c show ?thesis by (intro conjI)
qed

subsection \<open>The country impacts\<close>

lemma set_insertBy: "set (insertBy cmp x xs) = insert x (set xs)"
  by (induction xs) auto

lemma mset_insertBy: "mset (insertBy cmp x xs) = add_mset x (mset xs)"
  by (induction xs) auto

lemma mset_sortBy: "mset (sortBy cmp xs) = mset xs"
  by (induction xs) (simp_all add: sortBy_def mset_insertBy)

lemma set_sortBy: "set (sortBy cmp xs) = set xs"
  by (induction xs) (simp_all add: sortBy_def set_insertBy)

lemma compareImpacts_order: "(compareImpacts x y \<le> 0) = impactOrder x y"
  by (auto simp: compareImpacts_def impactOrder_def Let_def)

lemma impactOrder_total: "\<not> impactOrder x y \<Longrightarrow> impactOrder y x"
  by (auto simp: impactOrder_def)

lemma impactOrder_trans: "impactOrder x y \<Longrightarrow> impactOrder y z \<Longrightarrow> impactOrder x z"
  by (auto simp: impactOrder_def)

lemma sorted_insertBy:
  assumes "sorted_wrt impactOrder xs"
  shows "sorted_wrt impactOrder (insertBy compareImpacts x xs)"
  using assms
proof (induction xs)
  case Nil
  then show ?case by simp
next
  case (Cons y ys)
  show ?case
  proof (cases "impactOrder x y")
    case True
    then have "\<forall>z \<in> set ys. impactOrder x z"
      using Cons.prems impactOrder_trans[of x y] by auto
    with True Cons.prems show ?thesis by (simp add: compareImpacts_order)
  next
    case False
    then have "impactOrder y x" by (rule impactOrder_total)
    with False Cons show ?thesis by (auto simp: compareImpacts_order set_insertBy)
  qed
qed

lemma sorted_sortBy: "sorted_wrt impactOrder (sortBy compareImpacts xs)"
proof (induction xs)
  case Nil
  then show ?case by (simp add: sortBy_def)
next
  case (Cons x xs)
  then show ?case using sorted_insertBy[of "sortBy compareImpacts xs" x] by (simp add: sortBy_def)
qed

lemma getCapacity_cable:
  "getCapacityForCountry ds (''cable:'' @ x) code =
     (case find (\<lambda>c. cable_id c = x) (UNDERSEA_CABLES ds) of
        None \<Rightarrow> 0
      | Some src \<Rightarrow> (case capacityShareOf src code of None \<Rightarrow> 0 | Some s \<Rightarrow> s))"
  by (simp add: getCapacityForCountry_def startsWith_append replace_prefix Let_def
      capacityShareOf_def or_zero_def split: option.splits)

lemma countryCodeOf_country:
  "countryCodeOf (''country:'' @ code) (affectedEntry (countryNode code) e d dp pth) = code"
  by (simp add: countryCodeOf_def affectedEntry_def countryNode_def metadataCode_def
      replace_prefix)

text \<open>What \<open>collectCountryImpacts\<close> makes of the \<open>affected\<close> map of the built graph.\<close>

lemma fresh_country_impact:
  assumes "kv \<in> set (snd (bfs (freshGraph ds) d [sid] []
                              [\<lparr>nodeId = sid, depth = 0, path = [sid]\<rparr>]))"
  shows "node_type (an_node (snd kv)) = Country"
    and "''country:'' @ ci_country (countryImpact ds sid kv) = node_id (an_node (snd kv))"
    and "ci_countryName (countryImpact ds sid kv) = node_name (an_node (snd kv))"
    and "ci_impactLevel (countryImpact ds sid kv) = an_impactLevel (snd kv)"
    and "affectedCapacity (countryImpact ds sid kv)
         = getCapacityForCountry ds sid (ci_country (countryImpact ds sid kv))"
proof -
  from fresh_affected[OF assms] obtain code e where
    kv: "kv = (''country:'' @ code, affectedEntry (countryNode code) e d 0 [sid])" by blast
  have code: "countryCodeOf (fst kv) (snd kv) = code"
    unfolding kv fst_conv snd_conv by (rule countryCodeOf_country)
  show "node_type (an_node (snd kv)) = Country"
    by (simp add: kv affectedEntry_def countryNode_def)
  show "''country:'' @ ci_country (countryImpact ds sid kv) = node_id (an_node (snd kv))"
    unfolding countryImpact_def code by (simp add: kv affectedEntry_def countryNode_def)
  show "ci_countryName (countryImpact ds sid kv) = node_name (an_node (snd kv))"
    by (simp add: countryImpact_def)
  show "ci_impactLevel (countryImpact ds sid kv) = an_impactLevel (snd kv)"
    by (simp add: countryImpact_def)
  show "affectedCapacity (countryImpact ds sid kv)
         = getCapacityForCountry ds sid (ci_country (countryImpact ds sid kv))"
    by (simp add: countryImpact_def)
qed

lemma source_kind:
  assumes "map_get (nodes (freshGraph ds)) sid = Some src"
  shows "(node_type src = Cable \<longrightarrow> (\<exists>x. sid = ''cable:'' @ x
            \<and> find (\<lambda>c. cable_id c = x) (UNDERSEA_CABLES ds) \<noteq> None))
       \<and> (node_type src \<noteq> Cable \<longrightarrow> \<not> startsWith sid ''cable:'')"
proof -
  from nodesOnly_lookup[of ds sid src] assms
  consider
      (country) c where "sid = ''country:'' @ c" "src = countryNode c"
    | (chokepoint) w where "sid = ''chokepoint:'' @ waterway_id w" "src = chokepointNode w"
    | (port) p where "sid = ''port:'' @ port_id p" "src = portNode p"
    | (pipeline) p where "sid = ''pipeline:'' @ pipeline_id p" "src = pipelineNode p"
    | (cable) c where "c \<in> set (UNDERSEA_CABLES ds)" "sid = ''cable:'' @ cable_id c"
        "src = cableNode c"
    by (auto simp: freshGraph_nodes)
  then show ?thesis
  proof cases
    case country
    then show ?thesis by (simp add: countryNode_def)
  next
    case chokepoint
    then show ?thesis by (simp add: chokepointNode_def)
  next
    case port
    then show ?thesis by (simp add: portNode_def)
  next
    case pipeline
    then show ?thesis by (simp add: pipelineNode_def)
  next
    case cable
    have "find (\<lambda>c'. cable_id c' = cable_id c) (UNDERSEA_CABLES ds) \<noteq> None"
      using cable(1) by (auto simp: find_None_iff)
    with cable show ?thesis by (auto simp: cableNode_def)
  qed
qed

text \<open>
  C6 (as the code has it). For a cascade on the graph that \<open>buildDependencyGraph\<close>
  builds: the country impacts are, up to order, the affected nodes of type country (id,
  name and level); they are sorted by ascending severity rank and, at equal rank, by
  descending affected capacity; for a source that is not a cable every affected capacity
  is 0.1; for a cable source every affected capacity is the capacity share of the served
  entry that the source cable (the first of the dataset with the id) has for the country,
  and 0 where the cable has no served entry for it.
\<close>

theorem country_impacts:
  assumes "reachable ds c" and "fst (calculateCascade ds c sid d) = Some r"
  shows "mset (map (\<lambda>ci. (''country:'' @ ci_country ci, ci_countryName ci, ci_impactLevel ci))
                (countriesAffected r))
         = mset (map (\<lambda>a. (node_id (an_node a), node_name (an_node a), an_impactLevel a))
                  (filter (\<lambda>a. node_type (an_node a) = Country) (affectedNodes r)))
       \<and> sorted_wrt impactOrder (countriesAffected r)
       \<and> (node_type (source r) \<noteq> Cable
            \<longrightarrow> (\<forall>ci \<in> set (countriesAffected r). affectedCapacity ci = 0.1))
       \<and> (node_type (source r) = Cable
            \<longrightarrow> (\<exists>cb. find (\<lambda>cb. ''cable:'' @ cable_id cb = sid) (UNDERSEA_CABLES ds) = Some cb
                  \<and> (\<forall>ci \<in> set (countriesAffected r).
                        affectedCapacity ci
                        = (case capacityShareOf cb (ci_country ci) of
                             None \<Rightarrow> 0 | Some s \<Rightarrow> s))))"
proof -
  let ?g = "freshGraph ds"
  define A where "A = snd (bfs ?g d [sid] [] [\<lparr>nodeId = sid, depth = 0, path = [sid]\<rparr>])"
  note fci = fresh_country_impact[of _ ds d sid, folded A_def]
  have g: "fst (buildDependencyGraph ds c) = ?g" using assms(1) by (rule reachable_graph)
  from assms(2) obtain src where
    src: "map_get (nodes ?g) sid = Some src"
    using calculateCascade_None[of ds c sid d] unfolding g
    by (cases "map_get (nodes ?g) sid") auto
  from calculateCascade_found[of ds c sid src d] src assms(2)
  have r: "r = \<lparr>source = src, affectedNodes = map snd A,
                countriesAffected = sortBy compareImpacts (collectCountryImpacts ds sid A),
                redundancies = findRedundancies ds sid\<rparr>"
    unfolding g A_def by (simp del: bfs.simps)
  have allc: "filter (\<lambda>kv. node_type (an_node (snd kv)) = Country) A = A"
    using fci(1) by (simp add: filter_id_conv)
  have col: "collectCountryImpacts ds sid A = map (countryImpact ds sid) A"
    by (simp add: collectCountryImpacts_def allc)
  let ?f = "\<lambda>ci. (''country:'' @ ci_country ci, ci_countryName ci, ci_impactLevel ci)"
  let ?h = "\<lambda>a. (node_id (an_node a), node_name (an_node a), an_impactLevel a)"
  have m: "map ?f (map (countryImpact ds sid) A)
        = map ?h (filter (\<lambda>a. node_type (an_node a) = Country) (map snd A))"
  proof -
    have "filter (\<lambda>a. node_type (an_node a) = Country) (map snd A) = map snd A"
      using fci(1) by (auto simp: filter_id_conv)
    then show ?thesis
      using fci(2,3,4) by simp
  qed
  have ca: "countriesAffected r = sortBy compareImpacts (map (countryImpact ds sid) A)"
    and an: "affectedNodes r = map snd A"
    unfolding r by (simp_all add: col)
  have "mset (map ?f (countriesAffected r))
        = image_mset ?f (mset (sortBy compareImpacts (map (countryImpact ds sid) A)))"
    by (simp only: ca mset_map)
  also have "\<dots> = image_mset ?f (mset (map (countryImpact ds sid) A))"
    by (simp only: mset_sortBy)
  also have "\<dots> = mset (map ?f (map (countryImpact ds sid) A))"
    by (simp only: mset_map)
  also have "\<dots> = mset (map ?h (filter (\<lambda>a. node_type (an_node a) = Country) (affectedNodes r)))"
    by (simp only: m an)
  finally have perm: "mset (map ?f (countriesAffected r))
         = mset (map ?h (filter (\<lambda>a. node_type (an_node a) = Country) (affectedNodes r)))" .
  have sorted: "sorted_wrt impactOrder (countriesAffected r)"
    unfolding r by (simp add: sorted_sortBy)
  have cap: "affectedCapacity ci = getCapacityForCountry ds sid (ci_country ci)"
    if "ci \<in> set (countriesAffected r)" for ci
  proof -
    from that obtain kv where "kv \<in> set A" "ci = countryImpact ds sid kv"
      unfolding r by (auto simp: set_sortBy col)
    then show ?thesis using fci(5)[of kv] by simp
  qed
  have other: "\<forall>ci \<in> set (countriesAffected r). affectedCapacity ci = 0.1"
    if "node_type (source r) \<noteq> Cable"
  proof -
    from that source_kind[OF src] have "\<not> startsWith sid ''cable:''" by (simp add: r)
    then show ?thesis using cap by (simp add: getCapacityForCountry_def)
  qed
  have cable: "\<exists>cb. find (\<lambda>cb. ''cable:'' @ cable_id cb = sid) (UNDERSEA_CABLES ds) = Some cb
                  \<and> (\<forall>ci \<in> set (countriesAffected r).
                        affectedCapacity ci
                        = (case capacityShareOf cb (ci_country ci) of
                             None \<Rightarrow> 0 | Some s \<Rightarrow> s))"
    if "node_type (source r) = Cable"
  proof -
    from that source_kind[OF src] obtain x cb where
      sid: "sid = ''cable:'' @ x"
      and cb: "find (\<lambda>c. cable_id c = x) (UNDERSEA_CABLES ds) = Some cb"
      by (auto simp: r)
    have "find (\<lambda>cb. ''cable:'' @ cable_id cb = sid) (UNDERSEA_CABLES ds) = Some cb"
      using cb unfolding sid find_cable_key .
    moreover have "\<forall>ci \<in> set (countriesAffected r).
        affectedCapacity ci = (case capacityShareOf cb (ci_country ci) of None \<Rightarrow> 0 | Some s \<Rightarrow> s)"
      using cap getCapacity_cable[of ds x] cb unfolding sid by simp
    ultimately show ?thesis by blast
  qed
  from perm sorted other cable show ?thesis by blast
qed

text \<open>
  C6 (instance). The cable serves ES with share 0.7 and lands in ES and FR: ES is hit
  at level high with affected capacity 0.7, FR at level low with affected capacity 0.
\<close>

theorem country_impacts_witness:
  "map_option countriesAffected (fst (calculateCascade landingScenario None ''cable:c1'' 1))
   = Some [\<lparr>ci_country = ''ES'', ci_countryName = ''Spain'', ci_impactLevel = High,
             affectedCapacity = 0.7\<rparr>,
           \<lparr>ci_country = ''FR'', ci_countryName = ''France'', ci_impactLevel = Low,
             affectedCapacity = 0\<rparr>]
   \<and> sorted_wrt impactOrder
       (countriesAffected (the (fst (calculateCascade landingScenario None ''cable:c1'' 1))))
   \<and> capacityShareOf landingCable ''ES'' = Some 0.7"
proof -
  have ev: "fst (calculateCascade landingScenario None ''cable:c1'' 1) \<noteq> None"
    by (simp add: builder_defs cascade_defs landingScenario_def landingCable_def)
  then obtain r where r: "fst (calculateCascade landingScenario None ''cable:c1'' 1) = Some r"
    by blast
  have v: "map_option countriesAffected
             (fst (calculateCascade landingScenario None ''cable:c1'' 1))
           = Some [\<lparr>ci_country = ''ES'', ci_countryName = ''Spain'', ci_impactLevel = High,
                     affectedCapacity = 0.7\<rparr>,
                   \<lparr>ci_country = ''FR'', ci_countryName = ''France'', ci_impactLevel = Low,
                     affectedCapacity = 0\<rparr>]"
    by (simp add: builder_defs cascade_defs landingScenario_def landingCable_def
        countryName_def COUNTRY_NAMES_def)
  have s: "capacityShareOf landingCable ''ES'' = Some 0.7"
    by (simp add: capacityShareOf_def landingCable_def opt_list_def)
  from country_impacts[OF reachable.initial r]
  have "sorted_wrt impactOrder (countriesAffected r)" by blast
  with r v s show ?thesis by simp
qed

text \<open>
  C6 (counterexample to the specification's wording). In the same cascade FR is among
  the country impacts with affected capacity 0, and the source cable records no capacity
  share for FR.
\<close>

theorem country_impacts_counterexample:
  "map_option countriesAffected (fst (calculateCascade landingScenario None ''cable:c1'' 1))
   = Some [\<lparr>ci_country = ''ES'', ci_countryName = ''Spain'', ci_impactLevel = High,
             affectedCapacity = 0.7\<rparr>,
           \<lparr>ci_country = ''FR'', ci_countryName = ''France'', ci_impactLevel = Low,
             affectedCapacity = 0\<rparr>]
   \<and> find (\<lambda>cb. ''cable:'' @ cable_id cb = ''cable:c1'') (UNDERSEA_CABLES landingScenario)
     = Some landingCable
   \<and> capacityShareOf landingCable ''FR'' = None"
proof (intro conjI)
  show "map_option countriesAffected
             (fst (calculateCascade landingScenario None ''cable:c1'' 1))
           = Some [\<lparr>ci_country = ''ES'', ci_countryName = ''Spain'', ci_impactLevel = High,
                     affectedCapacity = 0.7\<rparr>,
                   \<lparr>ci_country = ''FR'', ci_countryName = ''France'', ci_impactLevel = Low,
                     affectedCapacity = 0\<rparr>]"
    by (simp add: builder_defs cascade_defs landingScenario_def landingCable_def
        countryName_def COUNTRY_NAMES_def)
  show "find (\<lambda>cb. ''cable:'' @ cable_id cb = ''cable:c1'') (UNDERSEA_CABLES landingScenario)
        = Some landingCable"
    by (simp add: landingScenario_def landingCable_def)
  show "capacityShareOf landingCable ''FR'' = None"
    by (simp add: capacityShareOf_def landingCable_def opt_list_def)
qed

end
